theory Spec2Isabelle
  imports Complex_Main
begin

section \<open>Python values used by sync.py\<close>

text \<open>
  A Python \<open>str\<close> is a sequence of Unicode code points; a \<open>bytes\<close> value is a sequence of
  octets. Integers are unbounded (\<open>int\<close>). The string literals of the source are ASCII and
  are written with \<open>lit\<close>.
\<close>

type_synonym str = "nat list"
type_synonym bytes = "char list"

definition lit :: "string \<Rightarrow> str" where
  "lit s = map of_char s"

text \<open>The exceptions that the modelled code can meet. All of them derive from \<open>Exception\<close>;
  \<open>SocketTimeout\<close> (\<open>socket.timeout\<close>), \<open>ConnectionResetError\<close> and \<open>BrokenPipeError\<close> are the
  three classes that the polling loop names, \<open>OtherOSError\<close> stands for every other socket
  failure, and \<open>AttributeError\<close> is what a method call on \<open>None\<close> raises.\<close>

datatype exn =
  ValueError | OverflowError | AttributeError | SocketTimeout | ConnectionResetError
  | BrokenPipeError | OtherOSError

subsection \<open>Character classes\<close>

text \<open>\<open>str.isspace\<close>, which is also what \<open>str.strip()\<close> and \<open>str.split()\<close> without
  arguments use as separator set.\<close>

definition py_isspace :: "nat \<Rightarrow> bool" where
  "py_isspace c \<longleftrightarrow>
     (9 \<le> c \<and> c \<le> 13) \<or> (28 \<le> c \<and> c \<le> 32) \<or> c = 133 \<or> c = 160 \<or> c = 5760
     \<or> (8192 \<le> c \<and> c \<le> 8202) \<or> c = 8232 \<or> c = 8233 \<or> c = 8239 \<or> c = 8287
     \<or> c = 12288"

text \<open>The code points of general category Nd (Unicode 14.0, the database of CPython 3.11):
  every run starts at a digit zero and counts upwards, so the decimal value of a member is
  its offset in the run modulo 10. \<open>int()\<close> and \<open>float()\<close> accept exactly these as digits.\<close>

definition decimal_ranges :: "(nat \<times> nat) list" where
  "decimal_ranges = [
    (48, 57), (1632, 1641), (1776, 1785), (1984, 1993), (2406, 2415), (2534, 2543),
    (2662, 2671), (2790, 2799), (2918, 2927), (3046, 3055), (3174, 3183), (3302, 3311),
    (3430, 3439), (3558, 3567), (3664, 3673), (3792, 3801), (3872, 3881), (4160, 4169),
    (4240, 4249), (6112, 6121), (6160, 6169), (6470, 6479), (6608, 6617), (6784, 6793),
    (6800, 6809), (6992, 7001), (7088, 7097), (7232, 7241), (7248, 7257), (42528, 42537),
    (43216, 43225), (43264, 43273), (43472, 43481), (43504, 43513), (43600, 43609),
    (44016, 44025), (65296, 65305), (66720, 66729), (68912, 68921), (69734, 69743),
    (69872, 69881), (69942, 69951), (70096, 70105), (70384, 70393), (70736, 70745),
    (70864, 70873), (71248, 71257), (71360, 71369), (71472, 71481), (71904, 71913),
    (72016, 72025), (72784, 72793), (73040, 73049), (73120, 73129), (92768, 92777),
    (92864, 92873), (93008, 93017), (120782, 120831), (123200, 123209), (123632, 123641),
    (125264, 125273), (130032, 130041)]"

text \<open>The further code points for which \<open>str.isdigit\<close> holds although they are no decimal
  digits (superscripts, circled digits and the like).\<close>

definition other_digit_ranges :: "(nat \<times> nat) list" where
  "other_digit_ranges = [
    (178, 179), (185, 185), (4969, 4977), (6618, 6618), (8304, 8304), (8308, 8313),
    (8320, 8329), (9312, 9320), (9332, 9340), (9352, 9360), (9450, 9450), (9461, 9469),
    (9471, 9471), (10102, 10110), (10112, 10120), (10122, 10130), (68160, 68163),
    (69216, 69224), (69714, 69722), (127232, 127242)]"

definition in_ranges :: "(nat \<times> nat) list \<Rightarrow> nat \<Rightarrow> bool" where
  "in_ranges rs c = list_ex (\<lambda>(lo, hi). lo \<le> c \<and> c \<le> hi) rs"

definition py_decimal :: "nat \<Rightarrow> nat option" where
  "py_decimal c =
     (if c < 128 then (if 48 \<le> c \<and> c \<le> 57 then Some (c - 48) else None)
      else case find (\<lambda>(lo, hi). lo \<le> c \<and> c \<le> hi) decimal_ranges of
             None \<Rightarrow> None
           | Some (lo, hi) \<Rightarrow> Some ((c - lo) mod 10))"

definition py_isdigit :: "nat \<Rightarrow> bool" where
  "py_isdigit c =
     (if c < 128 then 48 \<le> c \<and> c \<le> 57
      else in_ranges decimal_ranges c \<or> in_ranges other_digit_ranges c)"

subsection \<open>String methods\<close>

definition py_strip :: "str \<Rightarrow> str" where
  "py_strip s = rev (dropWhile py_isspace (rev (dropWhile py_isspace s)))"

text \<open>\<open>s.replace(old, new)\<close> for one-character \<open>old\<close> and \<open>new\<close>, the only use in the source.\<close>

definition py_replace :: "nat \<Rightarrow> nat \<Rightarrow> str \<Rightarrow> str" where
  "py_replace old new s = map (\<lambda>c. if c = old then new else c) s"

text \<open>\<open>s.split()\<close>: one left-to-right scan; \<open>cur\<close> is the word being collected. Runs of
  whitespace separate words and never produce an empty word.\<close>

fun split_scan :: "str \<Rightarrow> str \<Rightarrow> str list" where
  "split_scan cur [] = (if cur = [] then [] else [cur])"
| "split_scan cur (c # cs) =
     (if py_isspace c then (if cur = [] then split_scan [] cs else cur # split_scan [] cs)
      else split_scan (cur @ [c]) cs)"

definition py_split :: "str \<Rightarrow> str list" where
  "py_split s = split_scan [] s"

text \<open>\<open>needle in hay\<close> for strings.\<close>

fun py_contains :: "str \<Rightarrow> str \<Rightarrow> bool" where
  "py_contains needle [] = (needle = [])"
| "py_contains needle (c # cs) =
     (take (length needle) (c # cs) = needle \<or> py_contains needle cs)"

text \<open>\<open>s.isdigit()\<close>: at least one character, and all of them digits.\<close>

definition py_str_isdigit :: "str \<Rightarrow> bool" where
  "py_str_isdigit s \<longleftrightarrow> s \<noteq> [] \<and> list_all py_isdigit s"

text \<open>\<open>str(i)\<close> for an integer, as the f-string \<open>f"F {freq}"\<close> formats it.\<close>

fun digits_of :: "nat \<Rightarrow> str" where
  "digits_of n = (if n < 10 then [48 + n] else digits_of (n div 10) @ [48 + n mod 10])"

declare digits_of.simps [simp del]

definition py_str_int :: "int \<Rightarrow> str" where
  "py_str_int i = (if i < 0 then 45 # digits_of (nat (- i)) else digits_of (nat i))"

subsection \<open>\<open>int(tok)\<close>, \<open>float(tok)\<close> and \<open>round\<close>\<close>

text \<open>
  \<open>parse_freq_from_text\<close> calls \<open>int\<close> and \<open>float\<close> only on strings made of digits
  (\<open>str.isdigit\<close>), \<open>.\<close> and \<open>-\<close>. On such strings \<open>int\<close> accepts an optional minus sign
  followed by one or more decimal digits, at most \<open>int_max_str_digits\<close> of them (CPython's
  default limit, leading zeros counted); \<open>float\<close> accepts an optional minus sign followed by
  decimal digits with at most one point and at least one digit. Everything else raises
  \<open>ValueError\<close>.
\<close>

definition int_max_str_digits :: nat where
  "int_max_str_digits = 4300"

definition decimal_value :: "nat list \<Rightarrow> nat" where
  "decimal_value ds = foldl (\<lambda>a d. 10 * a + d) 0 ds"

definition split_sign :: "str \<Rightarrow> bool \<times> str" where
  "split_sign s = (case s of [] \<Rightarrow> (False, []) | c # r \<Rightarrow> if c = 45 then (True, r) else (False, s))"

definition py_int :: "str \<Rightarrow> exn + int" where
  "py_int s =
     (case split_sign s of (neg, body) \<Rightarrow>
        (case those (map py_decimal body) of
           None \<Rightarrow> Inl ValueError
         | Some ds \<Rightarrow>
             if ds = [] \<or> int_max_str_digits < length ds then Inl ValueError
             else Inr (if neg then - int (decimal_value ds) else int (decimal_value ds))))"

text \<open>
  A Python \<open>float\<close> is an IEEE 754 binary64 value. A finite one is represented by the rational
  number it denotes (the sign of a zero is not kept: \<open>round\<close> maps both zeros to 0).
\<close>

datatype pyfloat = Finite rat | PosInf | NegInf | NaN

fun bit_length :: "nat \<Rightarrow> nat" where
  "bit_length n = (if n = 0 then 0 else Suc (bit_length (n div 2)))"

declare bit_length.simps [simp del]

text \<open>\<open>rhe_div a b\<close> is \<open>a / b\<close> rounded to the nearest integer, ties to the even one
  (\<open>0 < b\<close>).\<close>

definition rhe_div :: "int \<Rightarrow> int \<Rightarrow> int" where
  "rhe_div a b =
     (let q = a div b; r = a mod b
      in if 2 * r < b then q else if b < 2 * r then q + 1 else if even q then q else q + 1)"

text \<open>\<open>binade n d\<close> is the integer \<open>k\<close> with \<open>2^k \<le> n / d < 2^(k+1)\<close> (\<open>0 < n\<close>, \<open>0 < d\<close>).\<close>

definition binade :: "nat \<Rightarrow> nat \<Rightarrow> int" where
  "binade n d =
     (let g = int (bit_length n) - int (bit_length d)
      in if (if 0 \<le> g then d * 2 ^ nat g \<le> n else d \<le> n * 2 ^ nat (- g)) then g else g - 1)"

text \<open>
  The correctly rounded conversion of the decimal \<open>n / d\<close> to binary64, which is what
  \<open>float(str)\<close> computes: the significand has 53 bits, the least exponent of the last place is
  \<open>-1074\<close>, ties go to the even significand, and a result of \<open>2^1024\<close> or more is an infinity
  (no exception is raised).
\<close>

definition nearest_double :: "bool \<Rightarrow> nat \<Rightarrow> nat \<Rightarrow> pyfloat" where
  "nearest_double neg n d =
     (if n = 0 then Finite 0
      else
        let e = max (binade n d - 52) (- 1074);
            m = (if 0 \<le> e then rhe_div (int n) (int d * 2 ^ nat e)
                 else rhe_div (int n * 2 ^ nat (- e)) (int d));
            v = (if 0 \<le> e then of_int (m * 2 ^ nat e) else of_int m / 2 ^ nat (- e))
        in if 2 ^ 1024 \<le> v then (if neg then NegInf else PosInf)
           else Finite (if neg then - v else v))"

definition py_float :: "str \<Rightarrow> exn + pyfloat" where
  "py_float s =
     (case split_sign s of (neg, body) \<Rightarrow>
        (let ip = takeWhile (\<lambda>c. c \<noteq> 46) body;
             rest = dropWhile (\<lambda>c. c \<noteq> 46) body;
             fp = (if rest = [] then [] else tl rest)
         in case (those (map py_decimal ip), those (map py_decimal fp)) of
              (Some di, Some df) \<Rightarrow>
                if di = [] \<and> df = [] then Inl ValueError
                else Inr (nearest_double neg (decimal_value (di @ df)) (10 ^ length df))
            | _ \<Rightarrow> Inl ValueError))"

definition round_half_even :: "rat \<Rightarrow> int" where
  "round_half_even q =
     (let f = \<lfloor>q\<rfloor>; r = q - of_int f
      in if r < 1 / 2 then f else if 1 / 2 < r then f + 1 else if even f then f else f + 1)"

text \<open>\<open>round(x)\<close> with one argument: the nearest integer, ties to even; an infinity raises
  \<open>OverflowError\<close> and a NaN \<open>ValueError\<close>.\<close>

definition py_round :: "pyfloat \<Rightarrow> exn + int" where
  "py_round x =
     (case x of Finite q \<Rightarrow> Inr (round_half_even q)
      | PosInf \<Rightarrow> Inl OverflowError | NegInf \<Rightarrow> Inl OverflowError
      | NaN \<Rightarrow> Inl ValueError)"

section \<open>RigCTL helpers: parsing a reply\<close>

text \<open>
  The loop of \<open>parse_freq_from_text\<close> over the tokens. \<open>continue\<close> is the recursive call,
  \<open>return\<close> ends the recursion, and an exception other than the \<open>ValueError\<close> that the two
  \<open>try\<close> blocks catch leaves the function.
\<close>

fun parse_tokens :: "str list \<Rightarrow> exn + int option" where
  "parse_tokens [] = Inr None"
| "parse_tokens (token # rest) =
     (let tok = filter (\<lambda>ch. py_isdigit ch \<or> ch \<in> set (lit ''.-'')) token
      in if tok = [] then parse_tokens rest
         else (case py_int tok of
                Inr v \<Rightarrow> Inr (Some v)
              | Inl e \<Rightarrow>
                  (if e \<noteq> ValueError then Inl e
                   else (case py_float tok of
                           Inl e1 \<Rightarrow> (if e1 = ValueError then parse_tokens rest else Inl e1)
                         | Inr fval \<Rightarrow>
                             (case py_round fval of
                                Inl e2 \<Rightarrow> (if e2 = ValueError then parse_tokens rest else Inl e2)
                              | Inr ival \<Rightarrow> Inr (Some ival))))))"

definition parse_freq_from_text :: "str \<Rightarrow> exn + int option" where
  "parse_freq_from_text text =
     (let clean = py_strip text
      in parse_tokens (py_split (py_replace 58 32 clean)))"

section \<open>The outside world\<close>

text \<open>
  Sockets, the clock and \<open>time.sleep\<close> are the program's only contact with its environment.
  A \<open>world\<close> holds what the environment will answer (the outcome of the k-th call of each
  kind, counted from 0) and the \<open>trace\<close> of the calls made so far, oldest first. A socket handle
  is the number of the \<open>connect\<close> call that opened it. Logging has no influence on control
  flow and is left out.
\<close>

type_synonym sock = nat

datatype event =
    Connect str int
  | Sendall sock bytes
  | Recv sock nat
  | Close sock
  | Time
  | Sleep real

fun is_Connect :: "event \<Rightarrow> bool" where
  "is_Connect (Connect h p) = True" | "is_Connect _ = False"

fun is_Sendall :: "event \<Rightarrow> bool" where
  "is_Sendall (Sendall s d) = True" | "is_Sendall _ = False"

fun is_Recv :: "event \<Rightarrow> bool" where
  "is_Recv (Recv s n) = True" | "is_Recv _ = False"

fun is_Close :: "event \<Rightarrow> bool" where
  "is_Close (Close s) = True" | "is_Close _ = False"

fun is_Time :: "event \<Rightarrow> bool" where
  "is_Time Time = True" | "is_Time _ = False"

record world =
  connect_outcome :: "nat \<Rightarrow> exn option"
  sendall_outcome :: "nat \<Rightarrow> exn option"
  recv_outcome :: "nat \<Rightarrow> exn + bytes"
  close_outcome :: "nat \<Rightarrow> exn option"
  clock :: "nat \<Rightarrow> real"
  trace :: "event list"

definition calls :: "(event \<Rightarrow> bool) \<Rightarrow> world \<Rightarrow> nat" where
  "calls kind w = length (filter kind (trace w))"

definition emit :: "event \<Rightarrow> world \<Rightarrow> world" where
  "emit ev w = w\<lparr>trace := trace w @ [ev]\<rparr>"

text \<open>A computation runs on a state, changes it, and either returns a value or raises.\<close>

type_synonym ('s, 'a) prog = "'s \<Rightarrow> (exn + 'a) \<times> 's"

definition io_return :: "'a \<Rightarrow> ('s, 'a) prog" where
  "io_return x = (\<lambda>s. (Inr x, s))"

definition io_raise :: "exn \<Rightarrow> ('s, 'a) prog" where
  "io_raise e = (\<lambda>s. (Inl e, s))"

definition io_bind :: "('s, 'a) prog \<Rightarrow> ('a \<Rightarrow> ('s, 'b) prog) \<Rightarrow> ('s, 'b) prog" where
  "io_bind m f = (\<lambda>s. case m s of (Inl e, s1) \<Rightarrow> (Inl e, s1) | (Inr x, s1) \<Rightarrow> f x s1)"

definition io_result :: "exn + 'a \<Rightarrow> ('s, 'a) prog" where
  "io_result r = (\<lambda>s. (r, s))"

text \<open>\<open>socket.socket(...)\<close>, \<open>settimeout\<close> and \<open>s.connect((host, port))\<close>.\<close>

definition sock_connect :: "str \<Rightarrow> int \<Rightarrow> (world, sock) prog" where
  "sock_connect host port w =
     (let k = calls is_Connect w
      in (case connect_outcome w k of None \<Rightarrow> Inr k | Some e \<Rightarrow> Inl e,
          emit (Connect host port) w))"

definition sock_sendall :: "sock \<Rightarrow> bytes \<Rightarrow> (world, unit) prog" where
  "sock_sendall s data w =
     (case sendall_outcome w (calls is_Sendall w) of None \<Rightarrow> Inr () | Some e \<Rightarrow> Inl e,
      emit (Sendall s data) w)"

text \<open>\<open>sock.recv(max_bytes)\<close> returns at most \<open>max_bytes\<close> octets.\<close>

definition sock_recv :: "sock \<Rightarrow> nat \<Rightarrow> (world, bytes) prog" where
  "sock_recv s max_bytes w =
     (case recv_outcome w (calls is_Recv w) of
        Inr data \<Rightarrow> Inr (take max_bytes data) | Inl e \<Rightarrow> Inl e,
      emit (Recv s max_bytes) w)"

definition sock_close :: "sock \<Rightarrow> (world, unit) prog" where
  "sock_close s w =
     (case close_outcome w (calls is_Close w) of None \<Rightarrow> Inr () | Some e \<Rightarrow> Inl e,
      emit (Close s) w)"

definition time_time :: "(world, real) prog" where
  "time_time w = (Inr (clock w (calls is_Time w)), emit Time w)"

text \<open>\<open>time.sleep(d)\<close>; the configured durations are taken to be valid sleep lengths.\<close>

definition time_sleep :: "real \<Rightarrow> (world, unit) prog" where
  "time_sleep d w = (Inr (), emit (Sleep d) w)"

subsection \<open>Codecs\<close>

text \<open>\<open>line.encode("ascii", errors="ignore")\<close>: code points that are not ASCII are left out.\<close>

definition encode_ascii_ignore :: "str \<Rightarrow> bytes" where
  "encode_ascii_ignore s = map char_of (filter (\<lambda>c. c < 128) s)"

text \<open>
  UTF-8 decoding as \<open>bytes.decode\<close> does it with an error handler that puts \<open>sub\<close> in the
  place of every undecodable stretch of octets. The stretches are those of CPython's decoder:
  a byte that cannot start a sequence is a stretch of its own; so is a start byte when the
  next byte cannot follow it; a start byte together with its valid continuation bytes when a
  later one is wrong; and a start byte with everything that follows when the data ends inside
  the sequence. \<open>errors="ignore"\<close> is \<open>sub = []\<close>.
\<close>

definition is_cont :: "nat \<Rightarrow> bool" where
  "is_cont b \<longleftrightarrow> 128 \<le> b \<and> b < 192"

fun utf8_scan :: "str \<Rightarrow> nat list \<Rightarrow> str" where
  "utf8_scan sub [] = []"
| "utf8_scan sub (b # bs) =
     (if b < 128 then b # utf8_scan sub bs
      else if b < 194 then sub @ utf8_scan sub bs
      else if b < 224 then
        (case bs of
           [] \<Rightarrow> sub
         | b2 # r \<Rightarrow>
             if is_cont b2 then ((b - 192) * 64 + (b2 - 128)) # utf8_scan sub r
             else sub @ utf8_scan sub bs)
      else if b < 240 then
        (case bs of
           [] \<Rightarrow> sub
         | b2 # r2 \<Rightarrow>
             if is_cont b2 \<and> (b = 224 \<and> 160 \<le> b2 \<or> b = 237 \<and> b2 < 160 \<or> b \<noteq> 224 \<and> b \<noteq> 237)
             then (case r2 of
                     [] \<Rightarrow> sub
                   | b3 # r \<Rightarrow>
                       if is_cont b3
                       then ((b - 224) * 4096 + (b2 - 128) * 64 + (b3 - 128))
                            # utf8_scan sub r
                       else sub @ utf8_scan sub r2)
             else sub @ utf8_scan sub bs)
      else if b < 245 then
        (case bs of
           [] \<Rightarrow> sub
         | b2 # r2 \<Rightarrow>
             if is_cont b2 \<and> (b = 240 \<and> 144 \<le> b2 \<or> b = 244 \<and> b2 < 144 \<or> b \<noteq> 240 \<and> b \<noteq> 244)
             then (case r2 of
                     [] \<Rightarrow> sub
                   | b3 # r3 \<Rightarrow>
                       if is_cont b3
                       then (case r3 of
                               [] \<Rightarrow> sub
                             | b4 # r \<Rightarrow>
                                 if is_cont b4
                                 then ((b - 240) * 262144 + (b2 - 128) * 4096
                                       + (b3 - 128) * 64 + (b4 - 128)) # utf8_scan sub r
                                 else sub @ utf8_scan sub r3)
                       else sub @ utf8_scan sub r2)
             else sub @ utf8_scan sub bs)
      else sub @ utf8_scan sub bs)"

definition decode_ignore :: "bytes \<Rightarrow> str" where
  "decode_ignore data = utf8_scan [] (map of_char data)"

section \<open>Socket helpers and RigCTL helpers\<close>

definition connect :: "str \<Rightarrow> int \<Rightarrow> str \<Rightarrow> (world, sock) prog" where
  "connect host port name = sock_connect host port"

definition send_line :: "sock \<Rightarrow> str \<Rightarrow> str \<Rightarrow> (world, unit) prog" where
  "send_line sock line peer =
     (let line1 = (if line \<noteq> [] \<and> last line = 10 then line else line @ lit ''\<newline>'')
      in sock_sendall sock (encode_ascii_ignore line1))"

definition recv_text :: "sock \<Rightarrow> str \<Rightarrow> nat \<Rightarrow> (world, str) prog" where
  "recv_text sock peer max_bytes =
     io_bind (sock_recv sock max_bytes) (\<lambda>data. io_return (decode_ignore data))"

definition rigctl_get_freq :: "sock \<Rightarrow> str \<Rightarrow> (world, int option) prog" where
  "rigctl_get_freq sock name =
     io_bind (send_line sock (lit ''f'') name) (\<lambda>_.
     io_bind (recv_text sock name 1024) (\<lambda>reply.
     io_result (parse_freq_from_text reply)))"

text \<open>The value of \<open>ok\<close> in \<open>rigctl_set_freq\<close>, as a function of the reply.\<close>

definition reply_ok :: "str \<Rightarrow> bool" where
  "reply_ok reply \<longleftrightarrow> py_contains (lit ''RPRT 0'') reply \<or> py_str_isdigit (py_strip reply)"

definition rigctl_set_freq :: "sock \<Rightarrow> str \<Rightarrow> int \<Rightarrow> (world, bool) prog" where
  "rigctl_set_freq sock name freq =
     io_bind (send_line sock (lit ''F '' @ py_str_int freq) name) (\<lambda>_.
     io_bind (recv_text sock name 1024) (\<lambda>reply.
     io_return (reply_ok reply)))"

section \<open>Change tracking\<close>

text \<open>
  The two dictionaries of \<open>Tracker\<close> always have exactly the keys \<open>"wf"\<close> and \<open>"sdr"\<close>, which
  are the two values of \<open>side\<close>; a dictionary is then a function on \<open>side\<close>. The instants are
  the values of \<open>time.time()\<close>; they are only stored and compared, which is exact.
\<close>

datatype side = WF | SDR

record tracker =
  th :: int
  last_val :: "side \<Rightarrow> int option"
  last_change_time :: "side \<Rightarrow> real"

definition Tracker_init :: "int \<Rightarrow> tracker" where
  "Tracker_init threshold_hz =
     \<lparr>th = threshold_hz, last_val = (\<lambda>_. None), last_change_time = (\<lambda>_. 0)\<rparr>"

definition Tracker_update :: "tracker \<Rightarrow> side \<Rightarrow> int \<Rightarrow> (world, tracker) prog" where
  "Tracker_update t sd new_val =
     (let old = last_val t sd
      in io_bind
           (if (case old of None \<Rightarrow> True | Some o_val \<Rightarrow> th t \<le> \<bar>new_val - o_val\<bar>)
            then io_bind time_time
                   (\<lambda>now. io_return (t\<lparr>last_change_time := (last_change_time t)(sd := now)\<rparr>))
            else io_return t)
           (\<lambda>t1. io_return (t1\<lparr>last_val := (last_val t1)(sd := Some new_val)\<rparr>)))"

definition Tracker_last_changed_side :: "tracker \<Rightarrow> side option" where
  "Tracker_last_changed_side t =
     (let wf_t = last_change_time t WF; sdr_t = last_change_time t SDR
      in if wf_t = 0 \<and> sdr_t = 0 then None
         else Some (if sdr_t \<le> wf_t then WF else SDR))"

section \<open>The main loop\<close>

record config =
  WF_HOST :: str
  WF_PORT :: int
  RTL_HOST :: str
  RTL_PORT :: int
  POLL_MS :: int
  RECONNECT_WAIT :: real
  CHANGE_THRESHOLD_HZ :: int

text \<open>\<open>poll_sec = max(0.02, POLL_MS / 1000.0)\<close>; the value is only handed to
  \<open>time.sleep\<close>.\<close>

definition poll_sec :: "config \<Rightarrow> real" where
  "poll_sec cfg = max (2 / 100) (real_of_int (POLL_MS cfg) / 1000)"

text \<open>The variables of \<open>main\<close> that live across iterations, together with the world.
  The variable \<open>wf\<close> is the field \<open>wf_sock\<close>.\<close>

record machine =
  wf_sock :: "sock option"
  sdr :: "sock option"
  tr :: tracker
  env :: world

definition in_world :: "(world, 'a) prog \<Rightarrow> (machine, 'a) prog" where
  "in_world m st = (case m (env st) of (r, w1) \<Rightarrow> (r, st\<lparr>env := w1\<rparr>))"

definition io_get :: "('s, 's) prog" where
  "io_get = (\<lambda>s. (Inr s, s))"

definition io_modify :: "('s \<Rightarrow> 's) \<Rightarrow> ('s, unit) prog" where
  "io_modify f = (\<lambda>s. (Inr (), f s))"

text \<open>A call \<open>helper(sock, ...)\<close> whose \<open>sock\<close> is \<open>None\<close> raises \<open>AttributeError\<close> at its first
  use of the socket, before any I/O.\<close>

definition with_sock :: "sock option \<Rightarrow> (sock \<Rightarrow> (world, 'a) prog) \<Rightarrow> (machine, 'a) prog" where
  "with_sock so f = (case so of None \<Rightarrow> io_raise AttributeError | Some s \<Rightarrow> in_world (f s))"

text \<open>\<open>try: if so: so.close()  except Exception: pass\<close>\<close>

definition close_quietly :: "sock option \<Rightarrow> world \<Rightarrow> world" where
  "close_quietly so w = (case so of None \<Rightarrow> w | Some s \<Rightarrow> snd (sock_close s w))"

definition close_both :: "(machine, unit) prog" where
  "close_both st = (Inr (), st\<lparr>env := close_quietly (sdr st) (close_quietly (wf_sock st) (env st))\<rparr>)"

text \<open>The body shared by the handler of a failed connect and the handler of the three named
  I/O errors: close both handles, forget them, sleep \<open>RECONNECT_WAIT\<close>.\<close>

definition drop_connections :: "config \<Rightarrow> (machine, unit) prog" where
  "drop_connections cfg =
     io_bind close_both (\<lambda>_.
     io_bind (io_modify (\<lambda>st. st\<lparr>wf_sock := None, sdr := None\<rparr>)) (\<lambda>_.
     in_world (time_sleep (RECONNECT_WAIT cfg))))"

text \<open>The first \<open>try\<close> block: open whichever connection is missing.\<close>

definition ensure_connections :: "config \<Rightarrow> (machine, unit) prog" where
  "ensure_connections cfg =
     io_bind io_get (\<lambda>st.
     io_bind (if wf_sock st = None
              then io_bind (in_world (connect (WF_HOST cfg) (WF_PORT cfg) (lit ''wfview'')))
                     (\<lambda>s. io_modify (\<lambda>st. st\<lparr>wf_sock := Some s\<rparr>))
              else io_return ()) (\<lambda>_.
     io_bind io_get (\<lambda>st.
     if sdr st = None
     then io_bind (in_world (connect (RTL_HOST cfg) (RTL_PORT cfg) (lit ''rigctl'')))
            (\<lambda>s. io_modify (\<lambda>st. st\<lparr>sdr := Some s\<rparr>))
     else io_return ())))"

definition record_reading :: "side \<Rightarrow> int option \<Rightarrow> (machine, unit) prog" where
  "record_reading sd freq =
     (case freq of
        None \<Rightarrow> io_return ()
      | Some f \<Rightarrow>
          io_bind io_get (\<lambda>st.
          io_bind (in_world (Tracker_update (tr st) sd f)) (\<lambda>t.
          io_modify (\<lambda>st. st\<lparr>tr := t\<rparr>))))"

text \<open>Lines 193 to 208: the comparison of the two readings of the tick and the correction.\<close>

definition correct :: "config \<Rightarrow> int option \<Rightarrow> int option \<Rightarrow> (machine, unit) prog" where
  "correct cfg wf_freq sdr_freq =
     (case (wf_freq, sdr_freq) of
        (Some a, Some b) \<Rightarrow>
          (let delta = \<bar>a - b\<bar>
           in if CHANGE_THRESHOLD_HZ cfg \<le> delta
              then io_bind io_get (\<lambda>st.
                   (case Tracker_last_changed_side (tr st) of
                      Some WF \<Rightarrow>
                        io_bind (with_sock (sdr st) (\<lambda>s. rigctl_set_freq s (lit ''rigctl'') a))
                          (\<lambda>_. io_return ())
                    | Some SDR \<Rightarrow>
                        io_bind (with_sock (wf_sock st) (\<lambda>s. rigctl_set_freq s (lit ''wfview'') b))
                          (\<lambda>_. io_return ())
                    | None \<Rightarrow>
                        io_bind (with_sock (sdr st) (\<lambda>s. rigctl_set_freq s (lit ''rigctl'') a))
                          (\<lambda>_. io_return ())))
              else io_return ())
      | _ \<Rightarrow> io_return ())"

text \<open>The second \<open>try\<close> block: one tick.\<close>

definition poll :: "config \<Rightarrow> (machine, unit) prog" where
  "poll cfg =
     io_bind io_get (\<lambda>st.
     io_bind (with_sock (wf_sock st) (\<lambda>s. rigctl_get_freq s (lit ''wfview''))) (\<lambda>wf_freq.
     io_bind (with_sock (sdr st) (\<lambda>s. rigctl_get_freq s (lit ''rigctl''))) (\<lambda>sdr_freq.
     io_bind (record_reading WF wf_freq) (\<lambda>_.
     io_bind (record_reading SDR sdr_freq) (\<lambda>_.
     io_bind (correct cfg wf_freq sdr_freq) (\<lambda>_.
     in_world (time_sleep (poll_sec cfg))))))))"

text \<open>One iteration of \<open>while not stop\<close>, with the two \<open>try\<close> blocks and their handlers.\<close>

definition loop_body :: "config \<Rightarrow> (machine, unit) prog" where
  "loop_body cfg st =
     (case ensure_connections cfg st of
        (Inl e, st1) \<Rightarrow> drop_connections cfg st1
      | (Inr u, st1) \<Rightarrow>
          (case poll cfg st1 of
             (Inl e, st2) \<Rightarrow>
               if e = SocketTimeout \<or> e = ConnectionResetError \<or> e = BrokenPipeError
               then drop_connections cfg st2
               else in_world (time_sleep (poll_sec cfg)) st2
           | (Inr u, st2) \<Rightarrow> (Inr (), st2)))"

text \<open>\<open>main\<close>: \<open>n\<close> is the number of times the loop finds \<open>stop\<close> unset; then both handles
  are closed.\<close>

definition initial :: "config \<Rightarrow> world \<Rightarrow> machine" where
  "initial cfg w =
     \<lparr>wf_sock = None, sdr = None, tr = Tracker_init (CHANGE_THRESHOLD_HZ cfg), env = w\<rparr>"

fun main_loop :: "config \<Rightarrow> nat \<Rightarrow> (machine, unit) prog" where
  "main_loop cfg 0 = io_return ()"
| "main_loop cfg (Suc n) = io_bind (loop_body cfg) (\<lambda>_. main_loop cfg n)"

definition main :: "config \<Rightarrow> nat \<Rightarrow> world \<Rightarrow> (exn + unit) \<times> machine" where
  "main cfg n w = io_bind (main_loop cfg n) (\<lambda>_. close_both) (initial cfg w)"

section \<open>Vocabulary of the claims\<close>

text \<open>The octets of the set command for a frequency, \<open>F <freq>\<close> and a newline.\<close>

definition set_command :: "int \<Rightarrow> bytes" where
  "set_command freq = encode_ascii_ignore (lit ''F '' @ py_str_int freq @ lit ''\<newline>'')"

text \<open>The \<open>sendall\<close> calls of the loop iteration that starts in state \<open>st\<close>, in order.\<close>

definition tick_sends :: "config \<Rightarrow> machine \<Rightarrow> event list" where
  "tick_sends cfg st =
     filter is_Sendall (drop (length (trace (env st))) (trace (env (snd (loop_body cfg st)))))"

text \<open>
  The parser as the specification words it. The text is split at whitespace and colons (the
  tokens are the maximal runs of other characters); each token is stripped to digits, \<open>.\<close>
  and \<open>-\<close>; a stripped token yields a number when it is an integer (an optional minus sign
  and one or more decimal digits), or else when it is a decimal (an optional minus sign and
  decimal digits with at most one point), whose exact value is rounded to the nearest integer,
  a tie going to the even one; the number of the first token that yields one is returned.
\<close>

function fields :: "(nat \<Rightarrow> bool) \<Rightarrow> str \<Rightarrow> str list" where
  "fields sep s =
     (case dropWhile sep s of
        [] \<Rightarrow> []
      | c # cs \<Rightarrow>
          (c # takeWhile (\<lambda>x. \<not> sep x) cs) # fields sep (dropWhile (\<lambda>x. \<not> sep x) cs))"
  by pat_completeness auto

termination
proof (relation "measure (\<lambda>(sep, s). length s)")
  show "wf (measure (\<lambda>(sep :: nat \<Rightarrow> bool, s :: str). length s))" by simp
next
  fix sep :: "nat \<Rightarrow> bool" and s :: str and c cs
  assume a: "dropWhile sep s = c # cs"
  have "length (dropWhile (\<lambda>x. \<not> sep x) cs) \<le> length cs" by (rule length_dropWhile_le)
  moreover have "length (c # cs) \<le> length s"
    using length_dropWhile_le [of sep s] a by simp
  ultimately show "((sep, dropWhile (\<lambda>x. \<not> sep x) cs), (sep, s)) \<in> measure (\<lambda>(sep, s). length s)"
    by simp
qed

declare fields.simps [simp del]

definition keep_numeric :: "str \<Rightarrow> str" where
  "keep_numeric token = filter (\<lambda>c. py_isdigit c \<or> c = 46 \<or> c = 45) token"

definition with_sign :: "bool \<Rightarrow> 'a::uminus \<Rightarrow> 'a" where
  "with_sign neg v = (if neg then - v else v)"

definition integer_token :: "str \<Rightarrow> int option" where
  "integer_token tok =
     (case split_sign tok of (neg, body) \<Rightarrow>
        (case those (map py_decimal body) of
           None \<Rightarrow> None
         | Some ds \<Rightarrow> if ds = [] then None else Some (with_sign neg (int (decimal_value ds)))))"

definition decimal_token :: "str \<Rightarrow> rat option" where
  "decimal_token tok =
     (case split_sign tok of (neg, body) \<Rightarrow>
        (let ip = takeWhile (\<lambda>c. c \<noteq> 46) body;
             fp = drop (Suc (length ip)) body
         in case (those (map py_decimal ip), those (map py_decimal fp)) of
              (Some di, Some df) \<Rightarrow>
                if di = [] \<and> df = [] then None
                else Some (with_sign neg (of_nat (decimal_value (di @ df)) / 10 ^ length df))
            | _ \<Rightarrow> None))"

definition token_number :: "str \<Rightarrow> int option" where
  "token_number tok =
     (case integer_token tok of
        Some v \<Rightarrow> Some v
      | None \<Rightarrow> map_option round_half_even (decimal_token tok))"

definition parse_frequency :: "str \<Rightarrow> int option" where
  "parse_frequency text =
     (case List.map_filter (\<lambda>token. token_number (keep_numeric token))
             (fields (\<lambda>c. py_isspace c \<or> c = 58) text) of
        [] \<Rightarrow> None
      | v # _ \<Rightarrow> Some v)"

text \<open>
  Decoding with substitution, which is how the specification describes \<open>receive_line\<close>:
  U+FFFD stands in the place of every undecodable stretch (\<open>errors="replace"\<close>).
\<close>

definition decode_substituting :: "bytes \<Rightarrow> str" where
  "decode_substituting data = utf8_scan [65533] (map of_char data)"

text \<open>The configuration that the source falls back to when the environment sets nothing.\<close>

definition default_config :: config where
  "default_config =
     \<lparr>WF_HOST = lit ''127.0.0.1'', WF_PORT = 4533,
      RTL_HOST = lit ''192.168.155.245'', RTL_PORT = 4532,
      POLL_MS = 200, RECONNECT_WAIT = 2, CHANGE_THRESHOLD_HZ = 50\<rparr>"


text \<open>
  A world for examples: every connect, send and close succeeds, the k-th \<open>recv\<close> returns the
  k-th entry of \<open>replies\<close> and times out when the list is used up, and the k-th reading of
  the clock is the k-th entry of \<open>ticks\<close> (the last one from then on).
\<close>

definition scripted :: "bytes list \<Rightarrow> real list \<Rightarrow> world" where
  "scripted replies ticks =
     \<lparr>connect_outcome = (\<lambda>k. None),
      sendall_outcome = (\<lambda>k. None),
      recv_outcome = (\<lambda>k. if k < length replies then Inr (replies ! k) else Inl SocketTimeout),
      close_outcome = (\<lambda>k. None),
      clock = (\<lambda>k. if k < length ticks then ticks ! k else last (0 # ticks)),
      trace = []\<rparr>"

section \<open>Facts about the string helpers\<close>

lemma space_cases:
  "py_isspace c \<Longrightarrow> c \<le> 32 \<or> c = 133 \<or> c = 160 \<or> c = 5760 \<or> (8192 \<le> c \<and> c \<le> 8202)
     \<or> c = 8232 \<or> c = 8233 \<or> c = 8239 \<or> c = 8287 \<or> c = 12288"
  unfolding py_isspace_def by linarith

lemma no_digit_8192: "8192 \<le> c \<Longrightarrow> c \<le> 8202 \<Longrightarrow> \<not> py_isdigit c"
  by (simp add: py_isdigit_def in_ranges_def decimal_ranges_def other_digit_ranges_def)

lemma digit_not_space: "py_isspace c \<Longrightarrow> \<not> py_isdigit c"
proof -
  assume "py_isspace c"
  then consider "c \<le> 32" | "c = 133" | "c = 160" | "c = 5760" | "8192 \<le> c \<and> c \<le> 8202"
     | "c = 8232" | "c = 8233" | "c = 8239" | "c = 8287" | "c = 12288"
    using space_cases by blast
  then show ?thesis
  proof cases
    case 1 then show ?thesis by (simp add: py_isdigit_def)
  next
    case 5 then show ?thesis by (simp add: no_digit_8192)
  qed (simp_all add: py_isdigit_def in_ranges_def decimal_ranges_def other_digit_ranges_def)
qed

lemma py_contains_iff: "py_contains needle hay \<longleftrightarrow> (\<exists>pre post. hay = pre @ needle @ post)"
proof (induction hay)
  case Nil
  then show ?case by auto
next
  case (Cons c cs)
  note IH = Cons.IH
  show ?case
  proof
    assume "py_contains needle (c # cs)"
    then consider (here) "take (length needle) (c # cs) = needle" | (later) "py_contains needle cs"
      by auto
    then show "\<exists>pre post. c # cs = pre @ needle @ post"
    proof cases
      case here
      have "c # cs = take (length needle) (c # cs) @ drop (length needle) (c # cs)"
        by (simp only: append_take_drop_id)
      then have "c # cs = [] @ needle @ drop (length needle) (c # cs)"
        using here by simp
      then show ?thesis by (intro exI)
    next
      case later
      then obtain pre post where "cs = pre @ needle @ post" using IH by auto
      then have "c # cs = (c # pre) @ needle @ post" by simp
      then show ?thesis by (intro exI)
    qed
  next
    assume "\<exists>pre post. c # cs = pre @ needle @ post"
    then obtain pre post where e: "c # cs = pre @ needle @ post" by auto
    show "py_contains needle (c # cs)"
    proof (cases pre)
      case Nil
      then have "take (length needle) (c # cs) = needle" using e by simp
      then show ?thesis by simp
    next
      case (Cons p ps)
      then have "cs = ps @ needle @ post" using e by simp
      then have "\<exists>pre post. cs = pre @ needle @ post" by (intro exI)
      then have "py_contains needle cs" using IH by simp
      then show ?thesis by simp
    qed
  qed
qed

lemma strip_core:
  assumes "list_all P l" and "list_all P r" and "body \<noteq> []"
    and "\<not> P (hd body)" and "\<not> P (last body)"
  shows "rev (dropWhile P (rev (dropWhile P (l @ body @ r)))) = body"
proof -
  obtain b bs where b: "body = b # bs" using assms(3) by (cases body) auto
  have 1: "dropWhile P (l @ body @ r) = body @ r"
    using assms(1,4) b by (simp add: dropWhile_append3 list_all_iff)
  have "rev (butlast body @ [last body]) = last body # rev (butlast body)" by simp
  then have rb: "rev body = last body # rev (butlast body)"
    using append_butlast_last_id [OF assms(3)] by simp
  have dr: "dropWhile P (rev r) = []" using assms(2) by (simp add: list_all_iff)
  have "dropWhile P (rev r @ last body # rev (butlast body))
          = dropWhile P (rev r) @ last body # rev (butlast body)"
    using assms(5) by (rule dropWhile_append3)
  then have 2: "dropWhile P (rev r @ rev body) = rev body"
    unfolding rb [symmetric] dr by simp
  show ?thesis using 1 2 by simp
qed

lemma rev_take_drop:
  "y = rev (dropWhile P (rev y)) @ rev (takeWhile P (rev y))"
proof -
  have "rev (takeWhile P (rev y) @ dropWhile P (rev y))
          = rev (dropWhile P (rev y)) @ rev (takeWhile P (rev y))"
    by (rule rev_append)
  moreover have "takeWhile P (rev y) @ dropWhile P (rev y) = rev y"
    by (rule takeWhile_dropWhile_id)
  ultimately have "rev (rev y) = rev (dropWhile P (rev y)) @ rev (takeWhile P (rev y))"
    by (simp only:)
  then show ?thesis by (simp only: rev_rev_ident)
qed

lemma strip_decompose:
  "\<exists>l r. s = l @ rev (dropWhile P (rev (dropWhile P s))) @ r \<and> list_all P l \<and> list_all P r"
proof -
  let ?x = "dropWhile P s"
  have 1: "s = takeWhile P s @ ?x" by simp
  have 2: "?x = rev (dropWhile P (rev ?x)) @ rev (takeWhile P (rev ?x))"
    by (rule rev_take_drop)
  have 3: "list_all P (takeWhile P s)"
    by (simp add: list_all_iff) (meson set_takeWhileD)
  have 4: "list_all P (rev (takeWhile P (rev ?x)))"
    by (simp add: list_all_iff) (meson set_takeWhileD)
  have "s = takeWhile P s @ rev (dropWhile P (rev ?x)) @ rev (takeWhile P (rev ?x))"
    using 1 2 by metis
  with 3 4 show ?thesis by blast
qed

lemma py_strip_isdigit_iff:
  "py_str_isdigit (py_strip s) \<longleftrightarrow>
     (\<exists>l body r. s = l @ body @ r \<and> list_all py_isspace l \<and> list_all py_isspace r
        \<and> body \<noteq> [] \<and> list_all py_isdigit body)"
proof
  assume a: "py_str_isdigit (py_strip s)"
  obtain l r where "s = l @ py_strip s @ r" "list_all py_isspace l" "list_all py_isspace r"
    using strip_decompose [of s py_isspace] unfolding py_strip_def by blast
  then show "\<exists>l body r. s = l @ body @ r \<and> list_all py_isspace l \<and> list_all py_isspace r
        \<and> body \<noteq> [] \<and> list_all py_isdigit body"
    using a unfolding py_str_isdigit_def by blast
next
  assume "\<exists>l body r. s = l @ body @ r \<and> list_all py_isspace l \<and> list_all py_isspace r
        \<and> body \<noteq> [] \<and> list_all py_isdigit body"
  then obtain l body r where s: "s = l @ body @ r" and l: "list_all py_isspace l"
    and r: "list_all py_isspace r" and ne: "body \<noteq> []" and d: "list_all py_isdigit body"
    by blast
  have "py_isdigit (hd body)" "py_isdigit (last body)"
    using ne d by (simp_all add: list_all_iff)
  then have "\<not> py_isspace (hd body)" "\<not> py_isspace (last body)"
    using digit_not_space by blast+
  then have "py_strip s = body"
    unfolding py_strip_def s using strip_core [OF l r ne] by simp
  then show "py_str_isdigit (py_strip s)"
    using ne d by (simp add: py_str_isdigit_def)
qed

text \<open>The definitions that evaluate the codec on a concrete string.\<close>

lemmas codec_defs = parse_freq_from_text_def lit_def py_strip_def py_isspace_def py_replace_def
  py_split_def py_isdigit_def py_int_def split_sign_def py_decimal_def int_max_str_digits_def
  decimal_value_def py_float_def nearest_double_def binade_def rhe_div_def round_half_even_def
  py_round_def reply_ok_def py_str_isdigit_def decode_ignore_def encode_ascii_ignore_def
  py_str_int_def char_of_eq_iff bit_length.simps digits_of.simps Let_def

section \<open>Facts about rounding and binary64\<close>

lemma bit_length_upper: "n < 2 ^ bit_length n"
proof (induction n rule: bit_length.induct)
  case (1 n)
  show ?case
  proof (cases "n = 0")
    case True
    then show ?thesis by (simp add: bit_length.simps)
  next
    case False
    then have "n div 2 < 2 ^ bit_length (n div 2)" using 1 by simp
    then have "n < 2 * 2 ^ bit_length (n div 2)" by linarith
    then show ?thesis using False by (simp add: bit_length.simps [of n])
  qed
qed

lemma bit_length_lower: "0 < n \<Longrightarrow> 2 ^ bit_length n \<le> 2 * n"
proof (induction n rule: bit_length.induct)
  case (1 n)
  then have n: "n \<noteq> 0" by simp
  show ?case
  proof (cases "n div 2 = 0")
    case True
    then have "n = 1" using n by linarith
    then show ?thesis by (simp add: bit_length.simps)
  next
    case False
    then have "2 ^ bit_length (n div 2) \<le> 2 * (n div 2)" using 1 n by simp
    then have "2 ^ bit_length (n div 2) \<le> n" by linarith
    then show ?thesis using n by (simp add: bit_length.simps [of n])
  qed
qed

lemma binade_bounds:
  assumes "0 < n" and "0 < d"
  shows "(of_nat d :: rat) * 2 powi (binade n d) \<le> of_nat n
     \<and> (of_nat n :: rat) < of_nat d * 2 powi (binade n d + 1)"
proof -
  define g where "g = int (bit_length n) - int (bit_length d)"
  define A :: rat where "A = 2 powi int (bit_length n)"
  define D :: rat where "D = 2 powi int (bit_length d)"
  have A: "A \<le> 2 * of_nat n" "of_nat n < A"
  proof -
    have "(of_nat (2 ^ bit_length n) :: rat) \<le> of_nat (2 * n)"
      using bit_length_lower [OF assms(1)] by (simp only: of_nat_le_iff)
    then show "A \<le> 2 * of_nat n" by (simp add: A_def)
    have "(of_nat n :: rat) < of_nat (2 ^ bit_length n)"
      using bit_length_upper [of n] by (simp only: of_nat_less_iff)
    then show "of_nat n < A" by (simp add: A_def)
  qed
  have D: "D \<le> 2 * of_nat d" "of_nat d < D"
  proof -
    have "(of_nat (2 ^ bit_length d) :: rat) \<le> of_nat (2 * d)"
      using bit_length_lower [OF assms(2)] by (simp only: of_nat_le_iff)
    then show "D \<le> 2 * of_nat d" by (simp add: D_def)
    have "(of_nat d :: rat) < of_nat (2 ^ bit_length d)"
      using bit_length_upper [of d] by (simp only: of_nat_less_iff)
    then show "of_nat d < D" by (simp add: D_def)
  qed
  have Dpos: "0 < D" and Apos: "0 < A" by (simp_all add: D_def A_def)
  have pg: "(2::rat) powi g = A / D"
    by (simp add: g_def A_def D_def power_int_diff)
  have pg1: "(2::rat) powi (g + 1) = 2 * A / D"
    by (simp add: pg power_int_add)
  have pgm: "(2::rat) powi (g - 1) = A / (2 * D)"
    by (simp add: pg power_int_diff)
  have test: "(if 0 \<le> g then d * 2 ^ nat g \<le> n else d \<le> n * 2 ^ nat (- g))
     \<longleftrightarrow> (of_nat d :: rat) * 2 powi g \<le> of_nat n"
  proof (cases "0 \<le> g")
    case True
    have "(d * 2 ^ nat g \<le> n) = ((of_nat (d * 2 ^ nat g) :: rat) \<le> of_nat n)"
      by (simp only: of_nat_le_iff)
    also have "\<dots> = ((of_nat d :: rat) * 2 ^ nat g \<le> of_nat n)" by simp
    also have "(2::rat) ^ nat g = 2 powi g" using True by (simp add: power_int_def)
    finally show ?thesis using True by simp
  next
    case False
    have "(d \<le> n * 2 ^ nat (- g)) = ((of_nat d :: rat) \<le> of_nat (n * 2 ^ nat (- g)))"
      by (simp only: of_nat_le_iff)
    also have "\<dots> = ((of_nat d :: rat) \<le> of_nat n * 2 ^ nat (- g))" by simp
    also have "\<dots> = ((of_nat d :: rat) * 2 powi g \<le> of_nat n)"
      using False by (simp add: power_int_def field_simps)
    finally show ?thesis using False by simp
  qed
  have bd: "binade n d =
     (if (if 0 \<le> g then d * 2 ^ nat g \<le> n else d \<le> n * 2 ^ nat (- g)) then g else g - 1)"
    unfolding binade_def g_def Let_def ..
  show ?thesis
  proof (cases "(of_nat d :: rat) * 2 powi g \<le> of_nat n")
    case True
    then have b: "binade n d = g" using test unfolding bd by simp
    have "(of_nat n :: rat) < of_nat d * (2 * A / D)"
    proof -
      have "A \<le> of_nat d * (2 * A / D)"
        using D(1) Dpos Apos by (simp add: field_simps)
      then show ?thesis using A(2) by linarith
    qed
    then show ?thesis using True b pg1 by simp
  next
    case False
    then have b: "binade n d = g - 1" using test unfolding bd by simp
    have "(of_nat d :: rat) * (A / (2 * D)) \<le> of_nat n"
    proof -
      have "of_nat d * (A / (2 * D)) \<le> A / 2"
        using D(2) Dpos Apos by (simp add: field_simps)
      then show ?thesis using A(1) by linarith
    qed
    then show ?thesis using False b pgm by simp
  qed
qed

lemma rhe_strict:
  assumes "of_int k - 1 / 2 < q" and "q < of_int k + 1 / 2"
  shows "round_half_even q = k"
proof (cases "of_int k \<le> q")
  case True
  then have f: "\<lfloor>q\<rfloor> = k" using assms(2) by (simp add: floor_eq_iff)
  show ?thesis using assms(2) by (simp add: round_half_even_def f Let_def)
next
  case False
  then have f: "\<lfloor>q\<rfloor> = k - 1" using assms(1) by (simp add: floor_eq_iff)
  show ?thesis using assms(1) False by (simp add: round_half_even_def f Let_def)
qed

lemma rhe_tie:
  assumes "even k" and "q = of_int k + 1 / 2 \<or> q = of_int k - 1 / 2"
  shows "round_half_even q = k"
  using assms(2)
proof
  assume q: "q = of_int k + 1 / 2"
  then have f: "\<lfloor>q\<rfloor> = k" by (simp add: floor_eq_iff)
  have r: "q - of_int k = 1 / 2" using q by simp
  show ?thesis unfolding round_half_even_def Let_def f r using assms(1) by simp
next
  assume q: "q = of_int k - 1 / 2"
  then have f: "\<lfloor>q\<rfloor> = k - 1" by (simp add: floor_eq_iff)
  have r: "q - of_int (k - 1) = 1 / 2" using q by simp
  show ?thesis unfolding round_half_even_def Let_def f r using assms(1) by simp
qed

lemma rhe_cases:
  "(of_int (round_half_even q) - 1 / 2 < q \<and> q < of_int (round_half_even q) + 1 / 2)
   \<or> (even (round_half_even q)
       \<and> (q = of_int (round_half_even q) + 1 / 2 \<or> q = of_int (round_half_even q) - 1 / 2))"
proof -
  define f where "f = \<lfloor>q\<rfloor>"
  define r where "r = q - of_int f"
  have r: "0 \<le> r" "r < 1" by (simp_all add: r_def f_def) linarith+
  have q: "q = of_int f + r" by (simp add: r_def)
  have k: "round_half_even q =
    (if r < 1 / 2 then f else if 1 / 2 < r then f + 1 else if even f then f else f + 1)"
    by (simp add: round_half_even_def f_def r_def Let_def)
  consider "r < 1 / 2" | "1 / 2 < r" | "r = 1 / 2" "even f" | "r = 1 / 2" "odd f"
    by linarith
  then show ?thesis
  proof cases
    case 1
    then show ?thesis using r q k by simp
  next
    case 2
    then show ?thesis using r q k by simp
  next
    case 3
    then show ?thesis using q k by simp
  next
    case 4
    then show ?thesis using q k by simp
  qed
qed

lemma rhe_near: "\<bar>of_int (round_half_even q) - q\<bar> \<le> 1 / 2"
  using rhe_cases [of q] by linarith

lemma rhe_int: "round_half_even (of_int i) = i"
  by (rule rhe_strict) simp_all

lemma rhe_minus: "round_half_even (- q) = - round_half_even q"
proof -
  define k where "k = round_half_even q"
  from rhe_cases [of q]
  consider "of_int k - 1 / 2 < q \<and> q < of_int k + 1 / 2"
    | "even k \<and> (q = of_int k + 1 / 2 \<or> q = of_int k - 1 / 2)"
    unfolding k_def by blast
  then have "round_half_even (- q) = - k"
  proof cases
    case 1
    then show ?thesis by (intro rhe_strict) simp_all
  next
    case 2
    then have "even (- k)" "- q = of_int (- k) + 1 / 2 \<or> - q = of_int (- k) - 1 / 2"
      by auto
    then show ?thesis by (rule rhe_tie)
  qed
  then show ?thesis by (simp add: k_def)
qed

lemma rhe_div_eq:
  assumes "0 < b"
  shows "rhe_div a b = round_half_even (of_int a / of_int b)"
proof -
  have f: "\<lfloor>(of_int a :: rat) / of_int b\<rfloor> = a div b"
    by (rule floor_divide_of_int_eq)
  have "a = b * (a div b) + a mod b" by simp
  then have "(of_int a :: rat) = of_int b * of_int (a div b) + of_int (a mod b)"
    by (metis of_int_add of_int_mult)
  then have r: "(of_int a :: rat) / of_int b - of_int (a div b) = of_int (a mod b) / of_int b"
    using assms by (simp add: field_simps)
  have 1: "((of_int (a mod b) :: rat) / of_int b < 1 / 2) = (2 * (a mod b) < b)"
  proof -
    have "((of_int (a mod b) :: rat) / of_int b < 1 / 2) = ((of_int (2 * (a mod b)) :: rat) < of_int b)"
      using assms by (simp add: field_simps)
    then show ?thesis by (simp only: of_int_less_iff)
  qed
  have 2: "(1 / 2 < (of_int (a mod b) :: rat) / of_int b) = (b < 2 * (a mod b))"
  proof -
    have "(1 / 2 < (of_int (a mod b) :: rat) / of_int b) = ((of_int b :: rat) < of_int (2 * (a mod b)))"
      using assms by (simp add: field_simps)
    then show ?thesis by (simp only: of_int_less_iff)
  qed
  show ?thesis
    unfolding rhe_div_def round_half_even_def Let_def f r 1 2 ..
qed

lemma stable_rounding:
  fixes n d :: nat and S :: rat
  assumes d: "0 < d" and S: "of_nat d < S" and ev: "\<exists>j::int. S = 2 * of_int j"
  defines "x \<equiv> (of_nat n :: rat) / of_nat d"
  shows "round_half_even (of_int (round_half_even (x * S)) / S) = round_half_even x"
proof -
  have Spos: "0 < S" using S d by (simp add: order.strict_trans2 [of 0 "of_nat d"])
  have dpos: "(0::rat) < of_nat d" using d by simp
  define m where "m = round_half_even (x * S)"
  define k where "k = round_half_even x"
  show ?thesis
  proof (cases "int d dvd 2 * int n")
    case True
    then obtain j where j: "2 * int n = int d * j" by (auto simp add: dvd_def)
    obtain h :: int where h: "S = 2 * of_int h" using ev by blast
    have "(2::rat) * of_nat n = of_nat d * of_int j"
    proof -
      have "(of_int (2 * int n) :: rat) = of_int (int d * j)" using j by simp
      then show ?thesis by simp
    qed
    then have "x = of_int j / 2" using dpos by (simp add: x_def field_simps)
    then have "x * S = of_int (j * h)" by (simp add: h)
    then have "round_half_even (x * S) = j * h" by (simp only: rhe_int)
    then have "of_int (round_half_even (x * S)) / S = x"
      using \<open>x * S = of_int (j * h)\<close> Spos by (simp add: field_simps)
    then show ?thesis by simp
  next
    case False
    have nt: "(2::rat) * of_nat n \<noteq> of_int i * of_nat d" for i :: int
    proof
      assume "(2::rat) * of_nat n = of_int i * of_nat d"
      then have "(of_int (2 * int n) :: rat) = of_int (i * int d)" by simp
      then have "2 * int n = i * int d" by (simp only: of_int_eq_iff)
      then show False using False by simp
    qed
    have strict: "of_int k - 1 / 2 < x \<and> x < of_int k + 1 / 2"
    proof -
      have "\<not> (x = of_int k + 1 / 2 \<or> x = of_int k - 1 / 2)"
      proof
        assume "x = of_int k + 1 / 2 \<or> x = of_int k - 1 / 2"
        then have "2 * of_nat n = of_int (2 * k + 1) * (of_nat d :: rat)
            \<or> 2 * of_nat n = of_int (2 * k - 1) * (of_nat d :: rat)"
          using dpos by (auto simp add: x_def field_simps)
        then show False using nt by blast
      qed
      then show ?thesis using rhe_cases [of x] unfolding k_def by blast
    qed
    have lo: "of_int (2 * k - 1) * of_nat d + 1 \<le> (2::rat) * of_nat n"
    proof -
      have "of_int (2 * k - 1) * (of_nat d :: rat) < 2 * of_nat n"
        using strict dpos by (simp add: x_def field_simps)
      then have "(of_int ((2 * k - 1) * int d) :: rat) < of_int (2 * int n)" by simp
      then have "(2 * k - 1) * int d < 2 * int n" by (simp only: of_int_less_iff)
      then have "(2 * k - 1) * int d + 1 \<le> 2 * int n" by simp
      then have "(of_int ((2 * k - 1) * int d + 1) :: rat) \<le> of_int (2 * int n)"
        by (simp only: of_int_le_iff)
      then show ?thesis by simp
    qed
    have hi: "(2::rat) * of_nat n + 1 \<le> of_int (2 * k + 1) * of_nat d"
    proof -
      have "2 * of_nat n < of_int (2 * k + 1) * (of_nat d :: rat)"
        using strict dpos by (simp add: x_def field_simps)
      then have "(of_int (2 * int n) :: rat) < of_int ((2 * k + 1) * int d)" by simp
      then have "2 * int n < (2 * k + 1) * int d" by (simp only: of_int_less_iff)
      then have "2 * int n + 1 \<le> (2 * k + 1) * int d" by simp
      then have "(of_int (2 * int n + 1) :: rat) \<le> of_int ((2 * k + 1) * int d)"
        by (simp only: of_int_le_iff)
      then show ?thesis by simp
    qed
    have xd: "x * of_nat d = of_nat n" using dpos by (simp add: x_def)
    have glo: "(of_int k - 1 / 2) + 1 / (2 * of_nat d) \<le> x"
    proof -
      have "((of_int k - 1 / 2) + 1 / (2 * of_nat d)) * (2 * of_nat d)
          = of_int (2 * k - 1) * of_nat d + (1::rat)"
        using dpos by (simp add: field_simps)
      also have "\<dots> \<le> 2 * of_nat n" by (rule lo)
      also have "\<dots> = x * (2 * of_nat d)" using xd by simp
      finally have t: "((of_int k - 1 / 2) + 1 / (2 * of_nat d)) * (2 * of_nat d)
          \<le> x * (2 * of_nat d)" .
      have "0 < 2 * (of_nat d :: rat)" using dpos by simp
      with t show ?thesis by (rule mult_right_le_imp_le)
    qed
    have ghi: "x + 1 / (2 * of_nat d) \<le> of_int k + 1 / 2"
    proof -
      have "(x + 1 / (2 * of_nat d)) * (2 * of_nat d) = 2 * of_nat n + (1::rat)"
        using dpos xd by (simp add: field_simps)
      also have "\<dots> \<le> of_int (2 * k + 1) * of_nat d" by (rule hi)
      also have "\<dots> = (of_int k + 1 / 2) * (2 * of_nat d)" by (simp add: field_simps)
      finally have t: "(x + 1 / (2 * of_nat d)) * (2 * of_nat d)
          \<le> (of_int k + 1 / 2) * (2 * of_nat d)" .
      have "0 < 2 * (of_nat d :: rat)" using dpos by simp
      with t show ?thesis by (rule mult_right_le_imp_le)
    qed
    have half: "1 / 2 < S / (2 * of_nat d)"
      using S dpos by (simp add: field_simps)
    have near: "\<bar>of_int m - x * S\<bar> \<le> 1 / 2" unfolding m_def by (rule rhe_near)
    have l1: "(of_int k - 1 / 2) * S + S / (2 * of_nat d) \<le> x * S"
    proof -
      have "((of_int k - 1 / 2) + 1 / (2 * of_nat d)) * S \<le> x * S"
        using glo Spos by (intro mult_right_mono) simp_all
      then show ?thesis by (simp add: field_simps)
    qed
    have l2: "x * S + S / (2 * of_nat d) \<le> (of_int k + 1 / 2) * S"
    proof -
      have "(x + 1 / (2 * of_nat d)) * S \<le> (of_int k + 1 / 2) * S"
        using ghi Spos by (intro mult_right_mono) simp_all
      then show ?thesis by (simp add: field_simps)
    qed
    have a: "(of_int k - 1 / 2) * S < of_int m" using l1 half near by linarith
    have b: "of_int m < (of_int k + 1 / 2) * S" using l2 half near by linarith
    have "of_int k - 1 / 2 < of_int m / S" using a Spos by (simp add: field_simps)
    moreover have "of_int m / S < of_int k + 1 / 2" using b Spos by (simp add: field_simps)
    ultimately have "round_half_even (of_int m / S) = k" by (rule rhe_strict)
    then show ?thesis by (simp add: m_def k_def)
  qed
qed

lemma nearest_double_round:
  assumes n: "0 < n" "n < 2 ^ 52" and d: "0 < d" "d \<le> 2 ^ 52"
  shows "py_round (nearest_double neg n d) =
     Inr (round_half_even (if neg then - (of_nat n / of_nat d) else of_nat n / of_nat d))"
proof -
  define b where "b = binade n d"
  define x :: rat where "x = of_nat n / of_nat d"
  have dpos: "(0::rat) < of_nat d" using d by simp
  have n1: "(1::rat) \<le> of_nat n" using n by simp
  have n52: "(of_nat n :: rat) < 2 ^ 52"
  proof -
    have "(of_nat n :: rat) < of_nat (2 ^ 52)" using n(2) by (simp only: of_nat_less_iff)
    then show ?thesis by simp
  qed
  have d52: "(of_nat d :: rat) \<le> 2 ^ 52"
  proof -
    have "(of_nat d :: rat) \<le> of_nat (2 ^ 52)" using d(2) by (simp only: of_nat_le_iff)
    then show ?thesis by simp
  qed
  have d1: "(1::rat) \<le> of_nat d" using d by simp
  have lo: "(of_nat d :: rat) * 2 powi b \<le> of_nat n"
    and hi: "(of_nat n :: rat) < of_nat d * 2 powi (b + 1)"
    using binade_bounds [OF n(1) d(1)] by (simp_all add: b_def)
  have b_hi: "b \<le> 51"
  proof (rule ccontr)
    assume "\<not> b \<le> 51"
    then have "52 \<le> b" by simp
    then have "(2::rat) powi 52 \<le> 2 powi b" by (intro power_int_increasing) simp_all
    then have a: "(2::rat) ^ 52 \<le> 2 powi b" by simp
    have "1 * (2::rat) powi b \<le> of_nat d * 2 powi b"
      using d1 by (intro mult_right_mono) simp_all
    then have c: "(2::rat) powi b \<le> of_nat d * 2 powi b" by (simp only: mult_1)
    from a c have "(2::rat) ^ 52 \<le> of_nat d * 2 powi b" by (rule order_trans)
    then show False using lo n52 by linarith
  qed
  have b_lo: "- 52 \<le> b"
  proof (rule ccontr)
    assume "\<not> - 52 \<le> b"
    then have "b + 1 \<le> - 52" by simp
    then have "(2::rat) powi (b + 1) \<le> 2 powi (- 52)" by (intro power_int_increasing) simp_all
    then have "(of_nat d :: rat) * 2 powi (b + 1) \<le> 2 ^ 52 * 2 powi (- 52)"
      using d52 by (intro mult_mono) simp_all
    also have "\<dots> = 1" by (simp add: power_int_minus)
    finally show False using hi n1 by linarith
  qed
  define s where "s = nat (52 - b)"
  define S :: rat where "S = 2 ^ s"
  have s1: "1 \<le> s" using b_hi by (simp add: s_def)
  have Sp: "S = 2 powi (52 - b)" using b_hi by (simp add: S_def s_def power_int_def)
  have Spos: "0 < S" by (simp add: S_def)
  have Sb: "S * 2 powi b = 2 ^ 52"
  proof -
    have "S * 2 powi b = (2::rat) powi (52 - b + b)"
      unfolding Sp by (rule power_int_add [symmetric]) simp
    then show ?thesis by simp
  qed
  have dS: "of_nat d < S"
  proof -
    have "of_nat d * 2 powi b < S * 2 powi b" using lo n52 Sb by linarith
    moreover have "(0::rat) < 2 powi b" by simp
    ultimately show ?thesis by (simp only: mult_less_cancel_right_pos)
  qed
  have ev: "\<exists>j::int. S = 2 * of_int j"
  proof -
    obtain t where "s = Suc t" using s1 by (cases s) simp_all
    then have "S = 2 * of_int (2 ^ t)" by (simp add: S_def)
    then show ?thesis by blast
  qed
  define m where "m = rhe_div (int n * 2 ^ s) (int d)"
  have m: "m = round_half_even (x * S)"
  proof -
    have "m = round_half_even (of_int (int n * 2 ^ s) / of_int (int d))"
      unfolding m_def using d(1) by (intro rhe_div_eq) simp
    also have "of_int (int n * 2 ^ s) / of_int (int d) = x * S"
      by (simp add: x_def S_def)
    finally show ?thesis .
  qed
  define v where "v = of_int m / S"
  have rv: "round_half_even v = round_half_even x"
    unfolding v_def m x_def using d(1) dS ev by (rule stable_rounding)
  have near: "\<bar>of_int m - x * S\<bar> \<le> 1 / 2" unfolding m by (rule rhe_near)
  have xle: "x \<le> of_nat n"
  proof -
    have "of_nat n / of_nat d \<le> (of_nat n :: rat) / 1"
      using d1 n1 by (intro divide_left_mono) simp_all
    then show ?thesis by (simp add: x_def)
  qed
  have S2: "2 \<le> S"
  proof -
    obtain j :: int where j: "S = 2 * of_int j" using ev by blast
    then have "(0::rat) < of_int j" using Spos by simp
    then have "0 < j" by simp
    then have "1 \<le> j" by simp
    then have "(1::rat) \<le> of_int j" by simp
    then show ?thesis using j by simp
  qed
  have vsmall: "v < 2 ^ 1024"
  proof -
    have "of_int m \<le> x * S + 1 / 2" using near by linarith
    then have "v \<le> (x * S + 1 / 2) / S"
      unfolding v_def using Spos by (intro divide_right_mono) simp_all
    also have "\<dots> = x + 1 / (2 * S)" using Spos by (simp add: field_simps)
    also have "\<dots> \<le> x + 1" using S2 by (simp add: field_simps)
    also have "\<dots> < 2 ^ 52 + 1" using xle n52 by linarith
    also have "\<dots> < (2::rat) ^ 1024" by simp
    finally show ?thesis .
  qed
  have e: "max (b - 52) (- 1074) = b - 52" using b_lo by simp
  have ne: "\<not> 0 \<le> b - 52" using b_hi by simp
  have se: "nat (- (b - 52)) = s" by (simp add: s_def)
  have n0: "n \<noteq> 0" using n(1) by simp
  have big: "\<not> 2 ^ 1024 \<le> of_int m / (2::rat) ^ s"
    using vsmall unfolding v_def S_def by (simp only: not_le)
  have nd: "nearest_double neg n d = Finite (if neg then - v else v)"
    unfolding nearest_double_def Let_def b_def [symmetric] e v_def S_def m_def
    by (simp only: if_not_P [OF n0] if_not_P [OF ne] se
        if_not_P [OF big [unfolded m_def]])
  show ?thesis
    by (simp add: nd py_round_def rv rhe_minus x_def [symmetric])
qed

section \<open>Facts about the decoder\<close>

lemma utf8_scan_ascii: "list_all (\<lambda>b. b < 128) bs \<Longrightarrow> utf8_scan sub bs = bs"
  by (induction bs) simp_all

lemma utf8_ignore_invalid_start:
  assumes "128 \<le> b \<and> b < 194 \<or> 245 \<le> b"
  shows "utf8_scan [] (b # bs) = utf8_scan [] bs"
proof -
  from assms consider "128 \<le> b \<and> b < 194" | "245 \<le> b" by blast
  then show ?thesis by cases simp_all
qed

lemma utf8_step:
  "\<exists>ys. length ys \<le> length r \<and>
     (utf8_scan [] (b # r) = [] \<or> utf8_scan [] (b # r) = utf8_scan [] ys
      \<or> (\<exists>c. utf8_scan [] (b # r) = c # utf8_scan [] ys))"
proof -
  consider (a) "b < 128" | (i) "128 \<le> b \<and> b < 194" | (two) "194 \<le> b \<and> b < 224"
    | (three) "224 \<le> b \<and> b < 240" | (four) "240 \<le> b \<and> b < 245" | (hi) "245 \<le> b"
    by linarith
  then show ?thesis
  proof cases
    case a
    then have "utf8_scan [] (b # r) = b # utf8_scan [] r" by simp
    then show ?thesis by blast
  next
    case i
    then have "utf8_scan [] (b # r) = utf8_scan [] r" by simp
    then show ?thesis by blast
  next
    case hi
    then have "utf8_scan [] (b # r) = utf8_scan [] r" by simp
    then show ?thesis by blast
  next
    case two
    show ?thesis
    proof (cases r)
      case Nil
      then have "utf8_scan [] (b # r) = []" using two by simp
      then show ?thesis by blast
    next
      case (Cons b2 r2)
      then have "utf8_scan [] (b # r) =
        (if is_cont b2 then ((b - 192) * 64 + (b2 - 128)) # utf8_scan [] r2
         else utf8_scan [] r)" using two by simp
      moreover have "length r2 \<le> length r" using Cons by simp
      ultimately show ?thesis by (metis order_refl)
    qed
  next
    case three
    show ?thesis
    proof (cases r)
      case Nil
      then have "utf8_scan [] (b # r) = []" using three by simp
      then show ?thesis by blast
    next
      case (Cons b2 r2)
      define C where
        "C \<longleftrightarrow> is_cont b2 \<and> (b = 224 \<and> 160 \<le> b2 \<or> b = 237 \<and> b2 < 160 \<or> b \<noteq> 224 \<and> b \<noteq> 237)"
      have E: "utf8_scan [] (b # b2 # r2) =
        (if C then (case r2 of [] \<Rightarrow> []
                    | b3 # r3 \<Rightarrow>
                        if is_cont b3
                        then ((b - 224) * 4096 + (b2 - 128) * 64 + (b3 - 128)) # utf8_scan [] r3
                        else utf8_scan [] r2)
         else utf8_scan [] (b2 # r2))"
        using three unfolding C_def
        by (auto simp del: utf8_scan.simps simp add: utf8_scan.simps(2) [of "[]" b "b2 # r2"]
            split: list.splits)
      show ?thesis
      proof (cases C)
        case False
        then have "utf8_scan [] (b # r) = utf8_scan [] r" using E Cons by simp
        then show ?thesis by blast
      next
        case True
        show ?thesis
        proof (cases r2)
          case Nil
          then have "utf8_scan [] (b # r) = []" using E True \<open>r = b2 # r2\<close> by simp
          then show ?thesis by blast
        next
          case c3: (Cons b3 r3)
          have "utf8_scan [] (b # r) =
            (if is_cont b3 then ((b - 224) * 4096 + (b2 - 128) * 64 + (b3 - 128)) # utf8_scan [] r3
             else utf8_scan [] r2)"
            using E True \<open>r = b2 # r2\<close> c3 by simp
          moreover have "length r3 \<le> length r" "length r2 \<le> length r"
            using c3 \<open>r = b2 # r2\<close> by simp_all
          ultimately show ?thesis by metis
        qed
      qed
    qed
  next
    case four
    show ?thesis
    proof (cases r)
      case Nil
      then have "utf8_scan [] (b # r) = []" using four by simp
      then show ?thesis by blast
    next
      case (Cons b2 r2)
      define C where
        "C \<longleftrightarrow> is_cont b2 \<and> (b = 240 \<and> 144 \<le> b2 \<or> b = 244 \<and> b2 < 144 \<or> b \<noteq> 240 \<and> b \<noteq> 244)"
      have E: "utf8_scan [] (b # b2 # r2) =
        (if C then (case r2 of [] \<Rightarrow> []
                    | b3 # r3 \<Rightarrow>
                        if is_cont b3
                        then (case r3 of [] \<Rightarrow> []
                              | b4 # r4 \<Rightarrow>
                                  if is_cont b4
                                  then ((b - 240) * 262144 + (b2 - 128) * 4096
                                        + (b3 - 128) * 64 + (b4 - 128)) # utf8_scan [] r4
                                  else utf8_scan [] r3)
                        else utf8_scan [] r2)
         else utf8_scan [] (b2 # r2))"
        using four unfolding C_def
        by (auto simp del: utf8_scan.simps simp add: utf8_scan.simps(2) [of "[]" b "b2 # r2"]
            split: list.splits)
      show ?thesis
      proof (cases C)
        case False
        then have "utf8_scan [] (b # r) = utf8_scan [] r" using E Cons by simp
        then show ?thesis by blast
      next
        case True
        show ?thesis
        proof (cases r2)
          case Nil
          then have "utf8_scan [] (b # r) = []" using E True \<open>r = b2 # r2\<close> by simp
          then show ?thesis by blast
        next
          case c3: (Cons b3 r3)
          show ?thesis
          proof (cases "is_cont b3")
            case False
            then have "utf8_scan [] (b # r) = utf8_scan [] r2"
              using E True \<open>r = b2 # r2\<close> c3 by simp
            moreover have "length r2 \<le> length r" using \<open>r = b2 # r2\<close> by simp
            ultimately show ?thesis by metis
          next
            case t3: True
            show ?thesis
            proof (cases r3)
              case Nil
              then have "utf8_scan [] (b # r) = []"
                using E True \<open>r = b2 # r2\<close> c3 t3 by simp
              then show ?thesis by blast
            next
              case c4: (Cons b4 r4)
              have "utf8_scan [] (b # r) =
                (if is_cont b4
                 then ((b - 240) * 262144 + (b2 - 128) * 4096 + (b3 - 128) * 64 + (b4 - 128))
                      # utf8_scan [] r4
                 else utf8_scan [] r3)"
                using E True \<open>r = b2 # r2\<close> c3 t3 c4 by simp
              moreover have "length r4 \<le> length r" "length r3 \<le> length r"
                using c4 c3 \<open>r = b2 # r2\<close> by simp_all
              ultimately show ?thesis by metis
            qed
          qed
        qed
      qed
    qed
  qed
qed

lemma utf8_ignore_length: "length (utf8_scan [] bs) \<le> length bs"
proof (induction bs rule: length_induct)
  case (1 bs)
  then have IH: "\<And>ys. length ys < length bs \<Longrightarrow> length (utf8_scan [] ys) \<le> length ys"
    by blast
  show ?case
  proof (cases bs)
    case Nil
    then show ?thesis by simp
  next
    case (Cons b r)
    obtain ys where ys: "length ys \<le> length r"
      and s: "utf8_scan [] (b # r) = [] \<or> utf8_scan [] (b # r) = utf8_scan [] ys
      \<or> (\<exists>c. utf8_scan [] (b # r) = c # utf8_scan [] ys)"
      using utf8_step [of r b] by blast
    have "length (utf8_scan [] ys) \<le> length ys" using IH [of ys] ys Cons by simp
    then have "length (utf8_scan [] ys) \<le> length r" using ys by simp
    then show ?thesis unfolding Cons using s by (elim disjE exE) simp_all
  qed
qed

section \<open>Facts about the world\<close>

lemma calls_emit:
  "calls kind (emit ev w) = (if kind ev then Suc (calls kind w) else calls kind w)"
  by (simp add: calls_def emit_def)

lemma emit_sel [simp]:
  "connect_outcome (emit ev w) = connect_outcome w"
  "sendall_outcome (emit ev w) = sendall_outcome w"
  "recv_outcome (emit ev w) = recv_outcome w"
  "close_outcome (emit ev w) = close_outcome w"
  "clock (emit ev w) = clock w"
  "trace (emit ev w) = trace w @ [ev]"
  by (simp_all add: emit_def)

lemma scripted_sel [simp]:
  "connect_outcome (scripted rs ts) k = None"
  "sendall_outcome (scripted rs ts) k = None"
  "close_outcome (scripted rs ts) k = None"
  "recv_outcome (scripted rs ts) k = (if k < length rs then Inr (rs ! k) else Inl SocketTimeout)"
  "clock (scripted rs ts) k = (if k < length ts then ts ! k else last (0 # ts))"
  "trace (scripted rs ts) = []"
  by (simp_all add: scripted_def)

lemma calls_scripted [simp]: "calls kind (scripted rs ts) = 0"
  by (simp add: calls_def)

lemma rigctl_set_freq_result:
  "fst (rigctl_set_freq s name freq w) =
     (case sendall_outcome w (calls is_Sendall w) of
        Some e \<Rightarrow> Inl e
      | None \<Rightarrow>
          (case recv_outcome w (calls is_Recv w) of
             Inl e \<Rightarrow> Inl e
           | Inr data \<Rightarrow> Inr (reply_ok (decode_ignore (take 1024 data)))))"
  by (simp add: rigctl_set_freq_def send_line_def recv_text_def io_bind_def io_return_def
      sock_sendall_def sock_recv_def calls_emit Let_def split: option.splits sum.splits)

lemma rigctl_get_freq_result:
  "fst (rigctl_get_freq s name w) =
     (case sendall_outcome w (calls is_Sendall w) of
        Some e \<Rightarrow> Inl e
      | None \<Rightarrow>
          (case recv_outcome w (calls is_Recv w) of
             Inl e \<Rightarrow> Inl e
           | Inr data \<Rightarrow> parse_freq_from_text (decode_ignore (take 1024 data))))"
  by (simp add: rigctl_get_freq_def send_line_def recv_text_def io_bind_def io_return_def
      io_result_def sock_sendall_def sock_recv_def calls_emit Let_def
      split: option.splits sum.splits)

lemma digits_of_last: "digits_of n \<noteq> [] \<and> last (digits_of n) = 48 + n mod 10"
  by (subst (1 2) digits_of.simps) simp

lemma py_str_int_last: "py_str_int i \<noteq> [] \<and> last (py_str_int i) \<noteq> 10"
  using digits_of_last by (simp add: py_str_int_def)

lemma send_line_get: "send_line s (lit ''f'') peer w = (case sendall_outcome w (calls is_Sendall w) of None \<Rightarrow> Inr () | Some e \<Rightarrow> Inl e, emit (Sendall s ''f\<newline>'') w)"
  by (simp add: send_line_def sock_sendall_def lit_def encode_ascii_ignore_def char_of_eq_iff)

lemma send_line_set:
  "send_line s (lit ''F '' @ py_str_int freq) peer w =
     (case sendall_outcome w (calls is_Sendall w) of None \<Rightarrow> Inr () | Some e \<Rightarrow> Inl e,
      emit (Sendall s (set_command freq)) w)"
  using py_str_int_last [of freq]
  by (simp add: send_line_def sock_sendall_def set_command_def)

lemma rigctl_get_freq_eq:
  "rigctl_get_freq s name w =
     (case sendall_outcome w (calls is_Sendall w) of
        Some e \<Rightarrow> (Inl e, emit (Sendall s ''f\<newline>'') w)
      | None \<Rightarrow>
          (case recv_outcome w (calls is_Recv w) of
             Inl e \<Rightarrow> (Inl e, emit (Recv s 1024) (emit (Sendall s ''f\<newline>'') w))
           | Inr data \<Rightarrow> (parse_freq_from_text (decode_ignore (take 1024 data)),
                          emit (Recv s 1024) (emit (Sendall s ''f\<newline>'') w))))"
  by (simp add: rigctl_get_freq_def send_line_get recv_text_def io_bind_def io_return_def
      io_result_def sock_recv_def calls_emit split: option.splits sum.splits)

lemma rigctl_set_freq_eq:
  "rigctl_set_freq s name freq w =
     (case sendall_outcome w (calls is_Sendall w) of
        Some e \<Rightarrow> (Inl e, emit (Sendall s (set_command freq)) w)
      | None \<Rightarrow>
          (case recv_outcome w (calls is_Recv w) of
             Inl e \<Rightarrow> (Inl e, emit (Recv s 1024) (emit (Sendall s (set_command freq)) w))
           | Inr data \<Rightarrow> (Inr (reply_ok (decode_ignore (take 1024 data))),
                          emit (Recv s 1024) (emit (Sendall s (set_command freq)) w))))"
  by (simp add: rigctl_set_freq_def send_line_set recv_text_def io_bind_def io_return_def
      sock_recv_def calls_emit split: option.splits sum.splits)

lemma rigctl_get_freq_world:
  "rigctl_get_freq s name w = (Inr r, w1) \<Longrightarrow> w1 = emit (Recv s 1024) (emit (Sendall s ''f\<newline>'') w)"
  by (auto simp add: rigctl_get_freq_eq split: option.splits sum.splits)

lemma rigctl_set_freq_sends:
  "filter is_Sendall (trace (snd (rigctl_set_freq s name freq w)))
     = filter is_Sendall (trace w) @ [Sendall s (set_command freq)]"
  by (simp add: rigctl_set_freq_eq split: option.splits sum.splits)

lemma Tracker_update_total:
  "\<exists>t1. Tracker_update t sd v w = (Inr t1, w) \<or> Tracker_update t sd v w = (Inr t1, emit Time w)"
  by (auto simp add: Tracker_update_def io_bind_def io_return_def time_time_def Let_def split: option.splits)

lemma ensure_connected:
  "wf_sock st = Some h1 \<Longrightarrow> sdr st = Some h2 \<Longrightarrow> ensure_connections cfg st = (Inr (), st)"
  by (simp add: ensure_connections_def io_bind_def io_get_def io_return_def)

lemma poll_both:
  assumes "wf_sock st = Some h1" and "sdr st = Some h2"
    and g1: "rigctl_get_freq h1 (lit ''wfview'') (env st) = (Inr (Some a), w1)"
    and g2: "rigctl_get_freq h2 (lit ''rigctl'') w1 = (Inr (Some b), w2)"
    and u1: "Tracker_update (tr st) WF a w2 = (Inr t1, w3)"
    and u2: "Tracker_update t1 SDR b w3 = (Inr t2, w4)"
  shows "poll cfg st =
     io_bind (correct cfg (Some a) (Some b)) (\<lambda>_. in_world (time_sleep (poll_sec cfg)))
       (st\<lparr>env := w4, tr := t2\<rparr>)"
  using assms
  by (simp add: poll_def io_bind_def io_get_def with_sock_def in_world_def record_reading_def
      io_modify_def)



lemma in_world_sleep: "in_world (time_sleep d) st = (Inr (), st\<lparr>env := emit (Sleep d) (env st)\<rparr>)"
  by (simp add: in_world_def time_sleep_def)

lemma drop_connections_eq:
  "drop_connections cfg st =
     (Inr (), st\<lparr>env := emit (Sleep (RECONNECT_WAIT cfg))
                          (close_quietly (sdr st) (close_quietly (wf_sock st) (env st))),
                 wf_sock := None, sdr := None\<rparr>)"
  by (simp add: drop_connections_def io_bind_def close_both_def io_modify_def in_world_def
      time_sleep_def)

lemma close_quietly_trace:
  "trace (close_quietly so w) = trace w @ (case so of None \<Rightarrow> [] | Some s \<Rightarrow> [Close s])"
  by (simp add: close_quietly_def sock_close_def split: option.splits)

lemma loop_body_connected:
  "wf_sock st = Some h1 \<Longrightarrow> sdr st = Some h2 \<Longrightarrow>
   loop_body cfg st =
     (case poll cfg st of
        (Inl e, st2) \<Rightarrow>
          if e = SocketTimeout \<or> e = ConnectionResetError \<or> e = BrokenPipeError
          then drop_connections cfg st2
          else in_world (time_sleep (poll_sec cfg)) st2
      | (Inr u, st2) \<Rightarrow> (Inr (), st2))"
  by (simp add: loop_body_def ensure_connected)

lemma sends_after:
  "trace w' = trace w @ evs \<Longrightarrow>
   filter is_Sendall (drop (length (trace w)) (trace w')) = filter is_Sendall evs"
  by simp

lemma tick_correction:
  assumes c: "wf_sock st = Some h1" "sdr st = Some h2"
    and g1: "rigctl_get_freq h1 (lit ''wfview'') (env st) = (Inr (Some a), w1)"
    and g2: "rigctl_get_freq h2 (lit ''rigctl'') w1 = (Inr (Some b), w2)"
    and u1: "Tracker_update (tr st) WF a w2 = (Inr t1, w3)"
    and u2: "Tracker_update t1 SDR b w3 = (Inr t2, w4)"
    and d: "CHANGE_THRESHOLD_HZ cfg \<le> \<bar>a - b\<bar>"
  shows "tick_sends cfg st =
     [Sendall h1 ''f\<newline>'', Sendall h2 ''f\<newline>'',
      (case Tracker_last_changed_side t2 of
         Some SDR \<Rightarrow> Sendall h1 (set_command b)
       | _ \<Rightarrow> Sendall h2 (set_command a))]"
proof -
  have w1: "w1 = emit (Recv h1 1024) (emit (Sendall h1 ''f\<newline>'') (env st))"
    using g1 by (rule rigctl_get_freq_world)
  have w2: "w2 = emit (Recv h2 1024) (emit (Sendall h2 ''f\<newline>'') w1)"
    using g2 by (rule rigctl_get_freq_world)
  have w3: "w3 = w2 \<or> w3 = emit Time w2"
    using Tracker_update_total [of "tr st" WF a w2] u1 by auto
  have w4: "w4 = w3 \<or> w4 = emit Time w3"
    using Tracker_update_total [of t1 SDR b w3] u2 by auto
  obtain evs where t4: "trace w4 = trace (env st) @ evs"
    and s4: "filter is_Sendall evs = [Sendall h1 ''f\<newline>'', Sendall h2 ''f\<newline>'']"
    using w3 w4 by (auto simp add: w1 w2)
  let ?st4 = "st\<lparr>env := w4, tr := t2\<rparr>"
  have p: "poll cfg st =
     io_bind (correct cfg (Some a) (Some b)) (\<lambda>_. in_world (time_sleep (poll_sec cfg))) ?st4"
    by (rule poll_both [OF c g1 g2 u1 u2])
  show ?thesis
  proof (cases "Tracker_last_changed_side t2 = Some SDR")
    case True
    then show ?thesis
      using c d t4 s4
      by (auto simp add: tick_sends_def loop_body_connected [OF c] p correct_def io_bind_def
          io_get_def io_return_def with_sock_def in_world_def rigctl_set_freq_eq
          drop_connections_eq close_quietly_trace time_sleep_def
          split: option.splits sum.splits)
  next
    case False
    then have k: "Tracker_last_changed_side t2 = None \<or> Tracker_last_changed_side t2 = Some WF"
      by (cases "Tracker_last_changed_side t2") (auto intro: side.exhaust)
    then show ?thesis
      using c d t4 s4
      by (auto simp add: tick_sends_def loop_body_connected [OF c] p correct_def io_bind_def
          io_get_def io_return_def with_sock_def in_world_def rigctl_set_freq_eq
          drop_connections_eq close_quietly_trace time_sleep_def
          split: option.splits sum.splits)
  qed
qed

section \<open>Facts about one iteration\<close>

lemma tick_in_sync:
  assumes c: "wf_sock st = Some h1" "sdr st = Some h2"
    and g1: "rigctl_get_freq h1 (lit ''wfview'') (env st) = (Inr (Some a), w1)"
    and g2: "rigctl_get_freq h2 (lit ''rigctl'') w1 = (Inr (Some b), w2)"
    and d: "\<bar>a - b\<bar> < CHANGE_THRESHOLD_HZ cfg"
  shows "tick_sends cfg st = [Sendall h1 ''f\<newline>'', Sendall h2 ''f\<newline>'']
     \<and> fst (loop_body cfg st) = Inr ()
     \<and> wf_sock (snd (loop_body cfg st)) = Some h1 \<and> sdr (snd (loop_body cfg st)) = Some h2
     \<and> last (trace (env (snd (loop_body cfg st)))) = Sleep (poll_sec cfg)"
proof -
  obtain t1 w3 where u1: "Tracker_update (tr st) WF a w2 = (Inr t1, w3)"
    and w3: "w3 = w2 \<or> w3 = emit Time w2"
    using Tracker_update_total [of "tr st" WF a w2] by blast
  obtain t2 w4 where u2: "Tracker_update t1 SDR b w3 = (Inr t2, w4)"
    and w4: "w4 = w3 \<or> w4 = emit Time w3"
    using Tracker_update_total [of t1 SDR b w3] by blast
  have w1: "w1 = emit (Recv h1 1024) (emit (Sendall h1 ''f\<newline>'') (env st))"
    using g1 by (rule rigctl_get_freq_world)
  have w2: "w2 = emit (Recv h2 1024) (emit (Sendall h2 ''f\<newline>'') w1)"
    using g2 by (rule rigctl_get_freq_world)
  have p: "poll cfg st = (Inr (), st\<lparr>env := emit (Sleep (poll_sec cfg)) w4, tr := t2\<rparr>)"
    using d by (simp add: poll_both [OF c g1 g2 u1 u2] correct_def io_bind_def io_return_def
        in_world_sleep)
  have l: "loop_body cfg st = (Inr (), st\<lparr>env := emit (Sleep (poll_sec cfg)) w4, tr := t2\<rparr>)"
    by (simp add: loop_body_def ensure_connected [OF c] p)
  show ?thesis
    using w3 w4 c by (auto simp add: tick_sends_def l w1 w2)
qed













lemma Tracker_update_ok: "\<exists>t1 w1. Tracker_update t sd v w = (Inr t1, w1) \<and> (w1 = w \<or> w1 = emit Time w)"
  using Tracker_update_total [of t sd v w] by blast

lemma tick_no_pair:
  assumes c: "wf_sock st = Some h1" "sdr st = Some h2"
    and g1: "rigctl_get_freq h1 (lit ''wfview'') (env st) = (Inr r1, w1)"
    and g2: "rigctl_get_freq h2 (lit ''rigctl'') w1 = (Inr r2, w2)"
    and n: "r1 = None \<or> r2 = None"
  shows "tick_sends cfg st = [Sendall h1 ''f\<newline>'', Sendall h2 ''f\<newline>'']"
proof -
  have w1: "w1 = emit (Recv h1 1024) (emit (Sendall h1 ''f\<newline>'') (env st))"
    using g1 by (rule rigctl_get_freq_world)
  have w2: "w2 = emit (Recv h2 1024) (emit (Sendall h2 ''f\<newline>'') w1)"
    using g2 by (rule rigctl_get_freq_world)
  have r: "\<exists>st3. record_reading sd r (st\<lparr>env := w2\<rparr>) = (Inr (), st3) \<and> wf_sock st3 = wf_sock st
      \<and> sdr st3 = sdr st \<and> (env st3 = w2 \<or> env st3 = emit Time w2)" for sd r
  proof (cases r)
    case None
    then show ?thesis by (simp add: record_reading_def io_return_def)
  next
    case (Some v)
    obtain t1 w3 where "Tracker_update (tr st) sd v w2 = (Inr t1, w3)" "w3 = w2 \<or> w3 = emit Time w2"
      using Tracker_update_ok by blast
    then show ?thesis
      using Some by (auto simp add: record_reading_def io_bind_def io_get_def in_world_def io_modify_def)
  qed
  from n show ?thesis
  proof
    assume r1: "r1 = None"
    obtain st3 where 3: "record_reading SDR r2 (st\<lparr>env := w2\<rparr>) = (Inr (), st3)"
      "env st3 = w2 \<or> env st3 = emit Time w2"
      using r by blast
    have "poll cfg st = (Inr (), st3\<lparr>env := emit (Sleep (poll_sec cfg)) (env st3)\<rparr>)"
      using c g1 g2 3(1) r1
      by (simp add: poll_def io_bind_def io_get_def with_sock_def in_world_def
          record_reading_def io_return_def correct_def time_sleep_def)
    then show ?thesis
      using 3(2) by (auto simp add: tick_sends_def loop_body_connected [OF c] w1 w2)
  next
    assume r2: "r2 = None"
    obtain st3 where 3: "record_reading WF r1 (st\<lparr>env := w2\<rparr>) = (Inr (), st3)"
      "env st3 = w2 \<or> env st3 = emit Time w2"
      using r by blast
    have "poll cfg st = (Inr (), st3\<lparr>env := emit (Sleep (poll_sec cfg)) (env st3)\<rparr>)"
      using c g1 g2 3(1) r2
      by (simp add: poll_def io_bind_def io_get_def with_sock_def in_world_def
          io_return_def correct_def time_sleep_def record_reading_def [of SDR]
          split: option.splits)
    then show ?thesis
      using 3(2) by (auto simp add: tick_sends_def loop_body_connected [OF c] w1 w2)
  qed
qed


section \<open>The claims\<close>

subsection \<open>The change tracker\<close>

text \<open>
  C5. A call \<open>update(side, new_val)\<close> sets the side's last-change instant to the current time
  exactly when the slot holds no previous value or the new value differs from the previous one
  by at least the threshold (a difference equal to the threshold counts); otherwise the clock
  is not even read and the instant stays. The stored value is overwritten with \<open>new_val\<close> in
  both cases, and nothing else of the tracker changes.
\<close>

theorem Tracker_update_threshold:
  "Tracker_update t sd v w =
     (if last_val t sd = None \<or> (\<exists>old. last_val t sd = Some old \<and> th t \<le> \<bar>v - old\<bar>)
      then (Inr (t\<lparr>last_change_time := (last_change_time t)(sd := clock w (calls is_Time w)),
                    last_val := (last_val t)(sd := Some v)\<rparr>), emit Time w)
      else (Inr (t\<lparr>last_val := (last_val t)(sd := Some v)\<rparr>), w))"
  by (auto simp add: Tracker_update_def io_bind_def io_return_def time_time_def Let_def
      split: option.splits)

text \<open>At the boundary: threshold 50, previous value 14250000, new value 14250050, clock at 7.\<close>

theorem Tracker_update_threshold_witness:
  "fst (Tracker_update
          \<lparr>th = 50, last_val = (\<lambda>_. Some 14250000), last_change_time = (\<lambda>_. 1)\<rparr>
          WF 14250050 (scripted [] [7]))
     = Inr \<lparr>th = 50, last_val = (\<lambda>_. Some 14250000)(WF := Some 14250050),
            last_change_time = (\<lambda>_. 1)(WF := 7)\<rparr>
   \<and> fst (Tracker_update
          \<lparr>th = 50, last_val = (\<lambda>_. Some 14250000), last_change_time = (\<lambda>_. 1)\<rparr>
          WF 14250049 (scripted [] [7]))
     = Inr \<lparr>th = 50, last_val = (\<lambda>_. Some 14250000)(WF := Some 14250049),
            last_change_time = (\<lambda>_. 1)\<rparr>"
  by (simp add: Tracker_update_threshold)

subsection \<open>Acknowledgement of a set command\<close>

text \<open>
  C7. The reply to a set command counts as an acknowledgement exactly when it contains
  \<open>RPRT 0\<close> somewhere, or consists of one or more digits with nothing but whitespace before
  and after them. \<open>rigctl_set_freq\<close> returns this verdict on the decoded reply whenever the
  send and the receive succeed. The replies \<open>RPRT 0\<close> and \<open>14250000\<close> (each with a newline)
  are acknowledgements, \<open>RPRT -1\<close> is none.
\<close>

theorem rigctl_set_freq_acknowledged:
  "(reply_ok reply \<longleftrightarrow>
       (\<exists>pre post. reply = pre @ lit ''RPRT 0'' @ post)
     \<or> (\<exists>l body r. reply = l @ body @ r \<and> list_all py_isspace l \<and> list_all py_isspace r
            \<and> body \<noteq> [] \<and> list_all py_isdigit body))
   \<and> fst (rigctl_set_freq s name freq w) =
       (case sendall_outcome w (calls is_Sendall w) of
          Some e \<Rightarrow> Inl e
        | None \<Rightarrow>
            (case recv_outcome w (calls is_Recv w) of
               Inl e \<Rightarrow> Inl e
             | Inr data \<Rightarrow> Inr (reply_ok (decode_ignore (take 1024 data)))))
   \<and> reply_ok (lit ''RPRT 0\<newline>'')
   \<and> reply_ok (lit ''14250000\<newline>'')
   \<and> \<not> reply_ok (lit ''RPRT -1\<newline>'')"
proof -
  have 1: "reply_ok reply \<longleftrightarrow>
       (\<exists>pre post. reply = pre @ lit ''RPRT 0'' @ post)
     \<or> (\<exists>l body r. reply = l @ body @ r \<and> list_all py_isspace l \<and> list_all py_isspace r
            \<and> body \<noteq> [] \<and> list_all py_isdigit body)"
    unfolding reply_ok_def py_contains_iff py_strip_isdigit_iff ..
  have 2: "reply_ok (lit ''RPRT 0\<newline>'')" by (simp add: codec_defs)
  have 3: "reply_ok (lit ''14250000\<newline>'')" by (simp add: codec_defs)
  have 4: "\<not> reply_ok (lit ''RPRT -1\<newline>'')" by (simp add: codec_defs)
  show ?thesis using 1 2 3 4 rigctl_set_freq_result by blast
qed

text \<open>The echoed frequency is an acknowledgement because of its second form, and a socket
  that answers \<open>RPRT 0\<close> makes \<open>rigctl_set_freq\<close> return \<open>True\<close>.\<close>

theorem rigctl_set_freq_acknowledged_witness:
  "(\<exists>l body r. lit ''14250000\<newline>'' = l @ body @ r \<and> list_all py_isspace l
       \<and> list_all py_isspace r \<and> body \<noteq> [] \<and> list_all py_isdigit body)
   \<and> fst (rigctl_set_freq 1 (lit ''rigctl'') 14250000 (scripted [''RPRT 0\<newline>''] []))
       = Inr True"
proof -
  note c = rigctl_set_freq_acknowledged
    [of "lit ''14250000\<newline>''" 1 "lit ''rigctl''" 14250000 "scripted [''RPRT 0\<newline>''] []"]
  have no: "\<not> py_contains (lit ''RPRT 0'') (lit ''14250000\<newline>'')" by (simp add: codec_defs)
  have dec: "decode_ignore ''RPRT 0\<newline>'' = lit ''RPRT 0\<newline>''" by (simp add: codec_defs)
  from c no have a: "\<exists>l body r. lit ''14250000\<newline>'' = l @ body @ r \<and> list_all py_isspace l
       \<and> list_all py_isspace r \<and> body \<noteq> [] \<and> list_all py_isdigit body"
    unfolding py_contains_iff by blast
  from c have b: "fst (rigctl_set_freq 1 (lit ''rigctl'') 14250000
        (scripted [''RPRT 0\<newline>''] [])) = Inr True"
    by (simp add: dec)
  from a b show ?thesis ..
qed

subsection \<open>Negative results of the parser\<close>

text \<open>
  C10. \<open>parse_freq_from_text\<close> can return a negative integer: on the error reply \<open>RPRT -1\<close>
  (with a newline) it returns \<open>-1\<close>, not \<open>None\<close>, and \<open>rigctl_get_freq\<close> hands that value to its
  caller as the frequency read.
\<close>

theorem parse_freq_from_text_negative:
  "parse_freq_from_text (lit ''RPRT -1\<newline>'') = Inr (Some (- 1))
   \<and> (\<exists>text v. parse_freq_from_text text = Inr (Some v) \<and> v < 0)
   \<and> fst (rigctl_get_freq 1 (lit ''rigctl'') (scripted [''RPRT -1\<newline>''] []))
       = Inr (Some (- 1))"
proof -
  have 1: "parse_freq_from_text (lit ''RPRT -1\<newline>'') = Inr (Some (- 1))" by (simp add: codec_defs)
  have dec: "decode_ignore ''RPRT -1\<newline>'' = lit ''RPRT -1\<newline>''" by (simp add: codec_defs)
  have 2: "\<exists>text v. parse_freq_from_text text = Inr (Some v) \<and> v < 0"
    using 1 by (intro exI [of _ "lit ''RPRT -1\<newline>''"] exI [of _ "- 1"]) simp
  have 3: "fst (rigctl_get_freq 1 (lit ''rigctl'') (scripted [''RPRT -1\<newline>''] []))
       = Inr (Some (- 1))"
    by (simp add: rigctl_get_freq_result dec 1)
  from 1 2 3 show ?thesis by blast
qed

subsection \<open>One tick\<close>

text \<open>
  C3. In a tick in which both endpoints are connected and answer the query with frequencies
  \<open>a\<close> and \<open>b\<close> that differ by less than the threshold, the only data sent are the two
  queries: no set command is issued. The iteration ends normally with the sleep of one poll
  interval and keeps both handles.
\<close>

theorem tick_in_sync_no_write:
  assumes "wf_sock st = Some h1" and "sdr st = Some h2"
    and "rigctl_get_freq h1 (lit ''wfview'') (env st) = (Inr (Some a), w1)"
    and "rigctl_get_freq h2 (lit ''rigctl'') w1 = (Inr (Some b), w2)"
    and "\<bar>a - b\<bar> < CHANGE_THRESHOLD_HZ cfg"
  shows "tick_sends cfg st = [Sendall h1 ''f\<newline>'', Sendall h2 ''f\<newline>'']
     \<and> fst (loop_body cfg st) = Inr ()
     \<and> wf_sock (snd (loop_body cfg st)) = Some h1 \<and> sdr (snd (loop_body cfg st)) = Some h2
     \<and> last (trace (env (snd (loop_body cfg st)))) = Sleep (poll_sec cfg)"
  using assms by (rule tick_in_sync)

text \<open>With the default threshold of 50 Hz and readings 49 Hz apart.\<close>

theorem tick_in_sync_no_write_witness:
  "tick_sends default_config
     \<lparr>wf_sock = Some 0, sdr = Some 1, tr = Tracker_init 50,
      env = scripted [''14250000\<newline>'', ''14250049\<newline>''] [100, 101]\<rparr>
     = [Sendall 0 ''f\<newline>'', Sendall 1 ''f\<newline>'']
   \<and> last (trace (env (snd (loop_body default_config
        \<lparr>wf_sock = Some 0, sdr = Some 1, tr = Tracker_init 50,
         env = scripted [''14250000\<newline>'', ''14250049\<newline>''] [100, 101]\<rparr>))))
     = Sleep (1 / 5)"
proof -
  define w0 where "w0 = scripted [''14250000\<newline>'', ''14250049\<newline>''] [100, 101]"
  define w1 where "w1 = emit (Recv 0 1024) (emit (Sendall 0 ''f\<newline>'') w0)"
  define w2 where "w2 = emit (Recv 1 1024) (emit (Sendall 1 ''f\<newline>'') w1)"
  define st where "st = \<lparr>wf_sock = Some 0, sdr = Some 1, tr = Tracker_init 50, env = w0\<rparr>"
  have c: "wf_sock st = Some 0" "sdr st = Some 1" by (simp_all add: st_def)
  have g1: "rigctl_get_freq 0 (lit ''wfview'') (env st) = (Inr (Some 14250000), w1)"
    by (simp add: st_def w0_def w1_def rigctl_get_freq_eq codec_defs)
  have g2: "rigctl_get_freq 1 (lit ''rigctl'') w1 = (Inr (Some 14250049), w2)"
    by (simp add: w0_def w1_def w2_def rigctl_get_freq_eq calls_emit codec_defs)
  have d: "\<bar>14250000 - 14250049\<bar> < CHANGE_THRESHOLD_HZ default_config"
    by (simp add: default_config_def)
  have p: "poll_sec default_config = 1 / 5" by (simp add: poll_sec_def default_config_def)
  show ?thesis
    using tick_in_sync_no_write [OF c g1 g2 d] by (simp add: st_def w0_def p)
qed

text \<open>
  C2. In a tick in which both endpoints are connected and answer the query with frequencies
  \<open>a\<close> (wfview) and \<open>b\<close> (rigctl) that differ by at least the threshold, and in which the
  tracker, after recording both readings, names a most recently changed side, exactly one set
  command is sent after the two queries: to rigctl with \<open>a\<close> when wfview changed last, to
  wfview with \<open>b\<close> when rigctl changed last. The write is attempted whatever the endpoint
  then answers.
\<close>

theorem correction_targets_other_side:
  assumes "wf_sock st = Some h1" and "sdr st = Some h2"
    and "rigctl_get_freq h1 (lit ''wfview'') (env st) = (Inr (Some a), w1)"
    and "rigctl_get_freq h2 (lit ''rigctl'') w1 = (Inr (Some b), w2)"
    and "Tracker_update (tr st) WF a w2 = (Inr t1, w3)"
    and "Tracker_update t1 SDR b w3 = (Inr t2, w4)"
    and "CHANGE_THRESHOLD_HZ cfg \<le> \<bar>a - b\<bar>"
    and k: "Tracker_last_changed_side t2 = Some sd"
  shows "tick_sends cfg st =
     [Sendall h1 ''f\<newline>'', Sendall h2 ''f\<newline>'',
      (case sd of WF \<Rightarrow> Sendall h2 (set_command a) | SDR \<Rightarrow> Sendall h1 (set_command b))]"
  using tick_correction [OF assms(1-7)] k by (cases sd) simp_all

text \<open>Both sides were at 14250000 Hz since instant 100; at instant 250 rigctl reports
  14300000 Hz, which is sent to wfview.\<close>

theorem correction_targets_other_side_witness:
  "tick_sends default_config
     \<lparr>wf_sock = Some 0, sdr = Some 1,
      tr = \<lparr>th = 50, last_val = (\<lambda>_. Some 14250000), last_change_time = (\<lambda>_. 100)\<rparr>,
      env = scripted [''14250000\<newline>'', ''14300000\<newline>'', ''RPRT 0\<newline>''] [250]\<rparr>
     = [Sendall 0 ''f\<newline>'', Sendall 1 ''f\<newline>'', Sendall 0 ''F 14300000\<newline>'']"
proof -
  define w0 where "w0 = scripted [''14250000\<newline>'', ''14300000\<newline>'', ''RPRT 0\<newline>''] [250]"
  define w1 where "w1 = emit (Recv 0 1024) (emit (Sendall 0 ''f\<newline>'') w0)"
  define w2 where "w2 = emit (Recv 1 1024) (emit (Sendall 1 ''f\<newline>'') w1)"
  define t0 where "t0 = \<lparr>th = 50, last_val = (\<lambda>_. Some (14250000::int)),
    last_change_time = (\<lambda>_. 100::real)\<rparr>"
  define t1 where "t1 = t0\<lparr>last_val := (last_val t0)(WF := Some 14250000)\<rparr>"
  define t2 where "t2 = t1\<lparr>last_change_time := (last_change_time t1)(SDR := 250),
    last_val := (last_val t1)(SDR := Some 14300000)\<rparr>"
  define st where "st = \<lparr>wf_sock = Some 0, sdr = Some 1, tr = t0, env = w0\<rparr>"
  have c: "wf_sock st = Some 0" "sdr st = Some 1" by (simp_all add: st_def)
  have g1: "rigctl_get_freq 0 (lit ''wfview'') (env st) = (Inr (Some 14250000), w1)"
    by (simp add: st_def w0_def w1_def rigctl_get_freq_eq codec_defs)
  have g2: "rigctl_get_freq 1 (lit ''rigctl'') w1 = (Inr (Some 14300000), w2)"
    by (simp add: w0_def w1_def w2_def rigctl_get_freq_eq calls_emit codec_defs)
  have u1: "Tracker_update (tr st) WF 14250000 w2 = (Inr t1, w2)"
    by (simp add: st_def t0_def t1_def Tracker_update_def io_bind_def io_return_def)
  have u2: "Tracker_update t1 SDR 14300000 w2 = (Inr t2, emit Time w2)"
    by (simp add: t0_def t1_def t2_def w0_def w1_def w2_def Tracker_update_def io_bind_def
        io_return_def time_time_def calls_emit)
  have d: "CHANGE_THRESHOLD_HZ default_config \<le> \<bar>14250000 - 14300000\<bar>"
    by (simp add: default_config_def)
  have k: "Tracker_last_changed_side t2 = Some SDR"
    by (simp add: t0_def t1_def t2_def Tracker_last_changed_side_def)
  have s: "set_command 14300000 = ''F 14300000\<newline>''"
    by (simp add: set_command_def codec_defs)
  show ?thesis
    using correction_targets_other_side [OF c g1 g2 u1 u2 d k]
    by (simp add: st_def w0_def t0_def s)
qed



text \<open>
  C4. A first sample (the slot holds no value) always stamps the side's last-change instant
  with the current time and stores the value. It does not by itself lead to a correction: in
  a tick in which both endpoints are connected and answer the query, whatever the tracker
  holds, a set command is sent if and only if both replies yielded a frequency and the two
  differ by at least the threshold; otherwise the two queries are all that is sent.
\<close>

theorem first_sample_stamps_without_trigger:
  "(last_val t sd = None \<longrightarrow>
      Tracker_update t sd v w =
        (Inr (t\<lparr>last_change_time := (last_change_time t)(sd := clock w (calls is_Time w)),
                last_val := (last_val t)(sd := Some v)\<rparr>), emit Time w))
   \<and> (wf_sock st = Some h1 \<and> sdr st = Some h2
        \<and> rigctl_get_freq h1 (lit ''wfview'') (env st) = (Inr r1, w1)
        \<and> rigctl_get_freq h2 (lit ''rigctl'') w1 = (Inr r2, w2)
      \<longrightarrow> (tick_sends cfg st = [Sendall h1 ''f\<newline>'', Sendall h2 ''f\<newline>''])
            = (\<nexists>a b. r1 = Some a \<and> r2 = Some b \<and> CHANGE_THRESHOLD_HZ cfg \<le> \<bar>a - b\<bar>))"
proof (intro conjI impI)
  assume "last_val t sd = None"
  then show "Tracker_update t sd v w =
        (Inr (t\<lparr>last_change_time := (last_change_time t)(sd := clock w (calls is_Time w)),
                last_val := (last_val t)(sd := Some v)\<rparr>), emit Time w)"
    by (simp add: Tracker_update_def io_bind_def io_return_def time_time_def)
next
  assume h: "wf_sock st = Some h1 \<and> sdr st = Some h2
        \<and> rigctl_get_freq h1 (lit ''wfview'') (env st) = (Inr r1, w1)
        \<and> rigctl_get_freq h2 (lit ''rigctl'') w1 = (Inr r2, w2)"
  then have c: "wf_sock st = Some h1" "sdr st = Some h2"
    and g1: "rigctl_get_freq h1 (lit ''wfview'') (env st) = (Inr r1, w1)"
    and g2: "rigctl_get_freq h2 (lit ''rigctl'') w1 = (Inr r2, w2)"
    by simp_all
  show "(tick_sends cfg st = [Sendall h1 ''f\<newline>'', Sendall h2 ''f\<newline>''])
            = (\<nexists>a b. r1 = Some a \<and> r2 = Some b \<and> CHANGE_THRESHOLD_HZ cfg \<le> \<bar>a - b\<bar>)"
  proof (cases "r1 = None \<or> r2 = None")
    case True
    then have "tick_sends cfg st = [Sendall h1 ''f\<newline>'', Sendall h2 ''f\<newline>'']"
      by (rule tick_no_pair [OF c g1 g2])
    then show ?thesis using True by auto
  next
    case False
    then obtain a b where r: "r1 = Some a" "r2 = Some b" by auto
    show ?thesis
    proof (cases "CHANGE_THRESHOLD_HZ cfg \<le> \<bar>a - b\<bar>")
      case True
      obtain t1 w3 where u1: "Tracker_update (tr st) WF a w2 = (Inr t1, w3)"
        using Tracker_update_ok by blast
      obtain t2 w4 where u2: "Tracker_update t1 SDR b w3 = (Inr t2, w4)"
        using Tracker_update_ok by blast
      have "length (tick_sends cfg st) = 3"
        using tick_correction [OF c g1 [unfolded r] g2 [unfolded r] u1 u2 True] by simp
      then have "tick_sends cfg st \<noteq> [Sendall h1 ''f\<newline>'', Sendall h2 ''f\<newline>'']"
        by auto
      then show ?thesis using True r by auto
    next
      case False
      then have "\<bar>a - b\<bar> < CHANGE_THRESHOLD_HZ cfg" by simp
      then have "tick_sends cfg st = [Sendall h1 ''f\<newline>'', Sendall h2 ''f\<newline>'']"
        using tick_in_sync [OF c g1 [unfolded r] g2 [unfolded r]] by simp
      then show ?thesis using False r by auto
    qed
  qed
qed

text \<open>A first sample on wfview while rigctl's reply cannot be parsed: the instant is
  stamped and no set command is sent.\<close>

theorem first_sample_stamps_without_trigger_witness:
  "fst (Tracker_update (Tracker_init 50) WF 14250000 (scripted [] [7]))
     = Inr ((Tracker_init 50)\<lparr>last_change_time := (\<lambda>_. 0)(WF := 7),
                                last_val := (\<lambda>_. None)(WF := Some 14250000)\<rparr>)
   \<and> tick_sends default_config
        \<lparr>wf_sock = Some 0, sdr = Some 1, tr = Tracker_init 50,
         env = scripted [''14250000\<newline>'', ''?\<newline>''] [100]\<rparr>
     = [Sendall 0 ''f\<newline>'', Sendall 1 ''f\<newline>'']"
proof -
  define w0 where "w0 = scripted [''14250000\<newline>'', ''?\<newline>''] [100]"
  define w1 where "w1 = emit (Recv 0 1024) (emit (Sendall 0 ''f\<newline>'') w0)"
  define w2 where "w2 = emit (Recv 1 1024) (emit (Sendall 1 ''f\<newline>'') w1)"
  define st where "st = \<lparr>wf_sock = Some 0, sdr = Some 1, tr = Tracker_init 50, env = w0\<rparr>"
  have c: "wf_sock st = Some 0" "sdr st = Some 1" by (simp_all add: st_def)
  have g1: "rigctl_get_freq 0 (lit ''wfview'') (env st) = (Inr (Some 14250000), w1)"
    by (simp add: st_def w0_def w1_def rigctl_get_freq_eq codec_defs)
  have g2: "rigctl_get_freq 1 (lit ''rigctl'') w1 = (Inr None, w2)"
    by (simp add: w0_def w1_def w2_def rigctl_get_freq_eq calls_emit codec_defs)
  have f: "last_val (Tracker_init 50) WF = None" by (simp add: Tracker_init_def)
  note t = first_sample_stamps_without_trigger
    [of "Tracker_init 50" WF 14250000 "scripted [] [7]" st 0 1 "Some 14250000" w1 None w2
      default_config]
  have a: "fst (Tracker_update (Tracker_init 50) WF 14250000 (scripted [] [7]))
     = Inr ((Tracker_init 50)\<lparr>last_change_time := (\<lambda>_. 0)(WF := 7),
                                last_val := (\<lambda>_. None)(WF := Some 14250000)\<rparr>)"
    using t f by (simp add: Tracker_init_def)
  have b: "tick_sends default_config st = [Sendall 0 ''f\<newline>'', Sendall 1 ''f\<newline>'']"
    using t c g1 g2 by simp
  show ?thesis using a b by (simp add: st_def w0_def)
qed

subsection \<open>Failures while polling\<close>



subsection \<open>Receiving\<close>

text \<open>
  C9, as amended. \<open>recv_text\<close> makes one \<open>recv\<close> call for at most \<open>max_bytes\<close> octets and
  nothing else; when that call raises, the exception is passed on, and otherwise the octets
  are decoded without any failure: undecodable octets are left out, not replaced. The decoded
  text is never longer than the data, ASCII data is returned as it is, and an octet that
  cannot start a UTF-8 sequence disappears.
\<close>

theorem recv_text_single_read_ignoring:
  "recv_text s peer max_bytes w =
     (case recv_outcome w (calls is_Recv w) of
        Inl e \<Rightarrow> Inl e
      | Inr data \<Rightarrow> Inr (decode_ignore (take max_bytes data)),
      emit (Recv s max_bytes) w)
   \<and> length (decode_ignore data) \<le> length data
   \<and> (list_all (\<lambda>c. of_char c < (128::nat)) data \<longrightarrow> decode_ignore data = map of_char data)
   \<and> (128 \<le> (of_char c :: nat) \<and> (of_char c :: nat) < 194 \<or> 245 \<le> (of_char c :: nat)
        \<longrightarrow> decode_ignore (c # data) = decode_ignore data)"
proof (intro conjI impI)
  show "recv_text s peer max_bytes w =
     (case recv_outcome w (calls is_Recv w) of
        Inl e \<Rightarrow> Inl e
      | Inr data \<Rightarrow> Inr (decode_ignore (take max_bytes data)),
      emit (Recv s max_bytes) w)"
    by (simp add: recv_text_def io_bind_def io_return_def sock_recv_def split: sum.splits)
  show "length (decode_ignore data) \<le> length data"
    using utf8_ignore_length [of "map of_char data"] by (simp add: decode_ignore_def)
next
  assume "list_all (\<lambda>c. of_char c < (128::nat)) data"
  then have "list_all (\<lambda>b. b < 128) (map of_char data :: nat list)"
    by (simp add: list_all_iff)
  then show "decode_ignore data = map of_char data"
    by (simp add: decode_ignore_def utf8_scan_ascii)
next
  assume "128 \<le> (of_char c :: nat) \<and> (of_char c :: nat) < 194 \<or> 245 \<le> (of_char c :: nat)"
  then show "decode_ignore (c # data) = decode_ignore data"
    using utf8_ignore_invalid_start [of "of_char c" "map of_char data"]
    by (simp del: utf8_scan.simps add: decode_ignore_def)
qed

text \<open>A reply with one octet that cannot start a sequence; an ASCII reply.\<close>

theorem recv_text_single_read_ignoring_witness:
  "recv_text 1 (lit ''rigctl'') 1024 (scripted [[CHR 0xFF, CHR ''1'', CHR ''4'']] [])
     = (Inr (lit ''14''), emit (Recv 1 1024) (scripted [[CHR 0xFF, CHR ''1'', CHR ''4'']] []))
   \<and> decode_ignore ''RPRT 0\<newline>'' = lit ''RPRT 0\<newline>''
   \<and> decode_ignore (CHR 0xFF # ''14'') = decode_ignore ''14''"
proof -
  note t = recv_text_single_read_ignoring
    [of 1 "lit ''rigctl''" 1024 "scripted [[CHR 0xFF, CHR ''1'', CHR ''4'']] []"
        "''RPRT 0\<newline>''" "CHR 0xFF"]
  have d: "decode_ignore [CHR 0xFF, CHR ''1'', CHR ''4''] = lit ''14''"
    by (simp add: codec_defs)
  have a: "recv_text 1 (lit ''rigctl'') 1024 (scripted [[CHR 0xFF, CHR ''1'', CHR ''4'']] [])
     = (Inr (lit ''14''), emit (Recv 1 1024) (scripted [[CHR 0xFF, CHR ''1'', CHR ''4'']] []))"
    using t by (simp add: d)
  have b: "decode_ignore ''RPRT 0\<newline>'' = lit ''RPRT 0\<newline>''"
    using t by (simp add: lit_def)
  have c: "decode_ignore (CHR 0xFF # ''14'') = decode_ignore ''14''"
    using recv_text_single_read_ignoring [of 1 "lit ''rigctl''" 1024
        "scripted [[CHR 0xFF, CHR ''1'', CHR ''4'']] []" "''14''" "CHR 0xFF"]
    by simp
  from a b c show ?thesis by simp
qed

text \<open>
  C9 as stated fails on its "by substitution": for the octets \<open>FF 31 34\<close> the source returns
  the two characters \<open>14\<close>, while decoding with substitution gives three, the first being
  U+FFFD.
\<close>

theorem recv_text_drops_undecodable:
  "fst (recv_text 1 (lit ''rigctl'') 1024 (scripted [[CHR 0xFF, CHR ''1'', CHR ''4'']] []))
     = Inr [49, 52]
   \<and> decode_substituting [CHR 0xFF, CHR ''1'', CHR ''4''] = [65533, 49, 52]"
  by (simp add: recv_text_def io_bind_def io_return_def sock_recv_def decode_substituting_def
      codec_defs)

end
